theory Spec2Isabelle
  imports Complex_Main "HOL-Library.Word"
begin

section \<open>JavaScript strings\<close>

text \<open>
  A JavaScript string is a sequence of 16-bit code units; \<open>length\<close>, \<open>trim\<close>, \<open>===\<close>
  and the regular expressions of the sources all work on code units.  The literals of
  the sources that are not ASCII are written out as their code units.
\<close>

type_synonym jschar = "16 word"
type_synonym jsstring = "jschar list"

definition js :: "string \<Rightarrow> jsstring" where
  "js s = map of_char s"

definition LF :: jschar where
  "LF = 0x0A"

definition CR :: jschar where
  "CR = 0x0D"

text \<open>
  The characters that \<open>String.prototype.trim\<close> strips and that \<open>\s\<close> matches:
  ECMAScript WhiteSpace and LineTerminator.
\<close>

definition is_space :: "jschar \<Rightarrow> bool" where
  "is_space c \<longleftrightarrow>
     c = 0x09 \<or> c = 0x0A \<or> c = 0x0B \<or> c = 0x0C \<or> c = 0x0D \<or> c = 0x20 \<or> c = 0xA0 \<or>
     c = 0x1680 \<or> (0x2000 \<le> c \<and> c \<le> 0x200A) \<or> c = 0x2028 \<or> c = 0x2029 \<or>
     c = 0x202F \<or> c = 0x205F \<or> c = 0x3000 \<or> c = 0xFEFF"

definition trim :: "jsstring \<Rightarrow> jsstring" where
  "trim s = rev (dropWhile is_space (rev (dropWhile is_space s)))"

section \<open>The chunker (lib/db/core/chunker.ts)\<close>

definition QA_CHUNK_SIZE :: nat where
  "QA_CHUNK_SIZE = 1500"

definition STRUCTURED_CHUNK_SIZE :: nat where
  "STRUCTURED_CHUNK_SIZE = 2000"

definition STRUCTURED_CHUNK_OVERLAP :: nat where
  "STRUCTURED_CHUNK_OVERLAP = 400"

definition DEFAULT_CHUNK_SIZE :: nat where
  "DEFAULT_CHUNK_SIZE = 1200"

definition DEFAULT_CHUNK_OVERLAP :: nat where
  "DEFAULT_CHUNK_OVERLAP = 200"

text \<open>\<open>content.replace(/\r\n/g, '\n')\<close>: every CR LF pair, scanned from the left,
  becomes one LF.\<close>

fun replace_crlf :: "jsstring \<Rightarrow> jsstring" where
  "replace_crlf (c # d # cs) =
     (if c = CR \<and> d = LF then LF # replace_crlf cs else c # replace_crlf (d # cs))"
| "replace_crlf cs = cs"

text \<open>
  \<open>qaPattern = /(Q:|A:|\<dots>)/g\<close>: the four alternatives are \<open>Q:\<close>, \<open>A:\<close> and the two
  Chinese markers U+95EE U+FF1A and U+7B54 U+FF1A.  Each is two code units long, so the
  global match count scans from the left and skips two units after a match.
\<close>

definition qa_marker :: "jschar \<Rightarrow> jschar \<Rightarrow> bool" where
  "qa_marker a b \<longleftrightarrow>
     (a = 0x51 \<and> b = 0x3A) \<or> (a = 0x41 \<and> b = 0x3A) \<or>
     (a = 0x95EE \<and> b = 0xFF1A) \<or> (a = 0x7B54 \<and> b = 0xFF1A)"

fun qaMatches :: "jsstring \<Rightarrow> nat" where
  "qaMatches (a # b # cs) =
     (if qa_marker a b then Suc (qaMatches cs) else qaMatches (b # cs))"
| "qaMatches cs = 0"

text \<open>
  \<open>doubleNewlinePattern = /\n\s*\n/g\<close>.  A match starts at a LF; the greedy \<open>\s*\<close> takes
  the whole run of white space after it and backtracks to the last LF of that run.
  \<open>blank_match s\<close> is the length of the match that starts at the head of \<open>s\<close>, if there
  is one.
\<close>

definition blank_match :: "jsstring \<Rightarrow> nat option" where
  "blank_match s =
     (case s of
        [] \<Rightarrow> None
      | c # cs \<Rightarrow>
          if c = LF then
            (let run = takeWhile is_space cs in
             if LF \<in> set run
             then Some (Suc (length run - length (takeWhile (\<lambda>x. x \<noteq> LF) (rev run))))
             else None)
          else None)"

text \<open>
  \<open>normalizedContent.match(doubleNewlinePattern) || []).length\<close>: the number of
  matches, found from the left without overlap.  The first argument counts the code units
  of the last match that are still to be skipped.
\<close>

fun count_blank :: "nat \<Rightarrow> jsstring \<Rightarrow> nat" where
  "count_blank k [] = 0"
| "count_blank (Suc k) (c # cs) = count_blank k cs"
| "count_blank 0 (c # cs) =
     (case blank_match (c # cs) of
        Some n \<Rightarrow> Suc (count_blank (n - 1) cs)
      | None \<Rightarrow> count_blank 0 cs)"

definition paragraphMatches :: "jsstring \<Rightarrow> nat" where
  "paragraphMatches s = count_blank 0 s"

text \<open>
  \<open>normalizedContent.split(doubleNewlinePattern)\<close>: the pieces between the matches, the
  empty ones included.  The second argument holds the current piece, reversed.
\<close>

fun split_blank :: "nat \<Rightarrow> jsstring \<Rightarrow> jsstring \<Rightarrow> jsstring list" where
  "split_blank k cur [] = [rev cur]"
| "split_blank (Suc k) cur (c # cs) = split_blank k cur cs"
| "split_blank 0 cur (c # cs) =
     (case blank_match (c # cs) of
        Some n \<Rightarrow> rev cur # split_blank (n - 1) [] cs
      | None \<Rightarrow> split_blank 0 (c # cur) cs)"

definition split_paragraphs :: "jsstring \<Rightarrow> jsstring list" where
  "split_paragraphs s = split_blank 0 [] s"

text \<open>
  \<open>RecursiveCharacterTextSplitter\<close> comes from the package @langchain/textsplitters,
  which is no part of the repository: \<open>new RecursiveCharacterTextSplitter({chunkSize,
  chunkOverlap}).splitText(text)\<close> is the parameter \<open>splitText chunkSize chunkOverlap text\<close>.
\<close>

type_synonym splitter = "nat \<Rightarrow> nat \<Rightarrow> jsstring \<Rightarrow> jsstring list"

text \<open>The \<open>for (const chunk of chunks)\<close> loop shared by strategies 1 and 2.\<close>

fun collect_chunks :: "splitter \<Rightarrow> nat \<Rightarrow> nat \<Rightarrow> jsstring list \<Rightarrow> jsstring list" where
  "collect_chunks splitText chunkSize chunkOverlap [] = []"
| "collect_chunks splitText chunkSize chunkOverlap (chunk # chunks) =
     (let trimmedChunk = trim chunk in
      if trimmedChunk = [] then collect_chunks splitText chunkSize chunkOverlap chunks
      else if length trimmedChunk > chunkSize
        then filter (\<lambda>sc. sc \<noteq> []) (map trim (splitText chunkSize chunkOverlap trimmedChunk))
               @ collect_chunks splitText chunkSize chunkOverlap chunks
        else trimmedChunk # collect_chunks splitText chunkSize chunkOverlap chunks)"

definition qa_strategy :: "splitter \<Rightarrow> jsstring \<Rightarrow> jsstring list" where
  "qa_strategy splitText normalizedContent =
     filter (\<lambda>chunk. length (trim chunk) > 10)
       (collect_chunks splitText QA_CHUNK_SIZE 100 (split_paragraphs normalizedContent))"

definition paragraph_strategy :: "splitter \<Rightarrow> jsstring \<Rightarrow> jsstring list" where
  "paragraph_strategy splitText normalizedContent =
     filter (\<lambda>chunk. length (trim chunk) > 10)
       (collect_chunks splitText STRUCTURED_CHUNK_SIZE STRUCTURED_CHUNK_OVERLAP
          (split_paragraphs normalizedContent))"

definition default_strategy :: "splitter \<Rightarrow> jsstring \<Rightarrow> jsstring list" where
  "default_strategy splitText normalizedContent =
     filter (\<lambda>chunk. chunk \<noteq> [] \<and> length chunk > 10)
       (map trim (splitText DEFAULT_CHUNK_SIZE DEFAULT_CHUNK_OVERLAP normalizedContent))"

definition universalChunker :: "splitter \<Rightarrow> jsstring \<Rightarrow> jsstring list" where
  "universalChunker splitText content =
     (let normalizedContent = replace_crlf content in
      if qaMatches normalizedContent > 5 \<and> paragraphMatches normalizedContent > 5
        then qa_strategy splitText normalizedContent
      else if paragraphMatches normalizedContent \<ge> 3
        then paragraph_strategy splitText normalizedContent
      else default_strategy splitText normalizedContent)"

text \<open>
  Which of the three branches of \<open>universalChunker\<close> runs; each branch announces itself
  with its own \<open>console.log\<close> line ("Strategy 1", "Strategy 2", "Strategy 3").
\<close>

datatype strategy = Strategy1 | Strategy2 | Strategy3

definition chunker_strategy :: "jsstring \<Rightarrow> strategy" where
  "chunker_strategy content =
     (let normalizedContent = replace_crlf content in
      if qaMatches normalizedContent > 5 \<and> paragraphMatches normalizedContent > 5 then Strategy1
      else if paragraphMatches normalizedContent \<ge> 3 then Strategy2
      else Strategy3)"

subsection \<open>Notions of the specification, for comparison with the code\<close>

text \<open>
  The specification speaks of "blank-line-separated paragraphs": the pieces between the
  blank-line separators that are not empty after trimming.
\<close>

definition blank_line_separated_paragraphs :: "jsstring \<Rightarrow> jsstring list" where
  "blank_line_separated_paragraphs s = filter (\<lambda>p. trim p \<noteq> []) (split_paragraphs s)"

text \<open>
  The specification compares a text with LF line endings with "its CRLF version": every
  LF becomes CR LF.  A text with LF line endings has no CR LF pair.
\<close>

definition crlf_version :: "jsstring \<Rightarrow> jsstring" where
  "crlf_version s = concat (map (\<lambda>c. if c = LF then [CR, LF] else [c]) s)"

fun has_crlf :: "jsstring \<Rightarrow> bool" where
  "has_crlf (c # d # cs) = ((c = CR \<and> d = LF) \<or> has_crlf (d # cs))"
| "has_crlf cs = False"

subsection \<open>Sample inputs\<close>

text \<open>A splitter that returns its text as one piece.\<close>

definition no_split :: splitter where
  "no_split chunkSize chunkOverlap text = [text]"

text \<open>Six question and answer markers in six paragraphs, five blank lines between them.\<close>

definition six_paragraphs :: jsstring where
  "six_paragraphs =
     js ''Q: a'' @ [LF, LF] @ js ''A: b'' @ [LF, LF] @ js ''Q: c'' @ [LF, LF] @ js ''A: d''
       @ [LF, LF] @ js ''Q: e'' @ [LF, LF] @ js ''A: f''"

definition two_lines :: jsstring where
  "two_lines = js ''hello, world'' @ [LF] @ js ''second line here''"

section \<open>Similarity scores of the two local backends\<close>

text \<open>
  JavaScript numbers and SQL \<open>double precision\<close> values are modelled as real numbers.
  The distances 0 and 2 and the similarities 1 and -1 are exact in both.
\<close>

type_synonym metadata = "(jsstring \<times> jsstring) list"

record document =
  doc_id :: jsstring
  doc_content :: jsstring
  doc_metadata :: metadata
  similarity :: "real option"

text \<open>An array read \<open>xs?.[i]\<close>: \<open>undefined\<close> outside the array.\<close>

definition at_index :: "'a list \<Rightarrow> nat \<Rightarrow> 'a option" where
  "at_index xs i = (if i < length xs then Some (xs ! i) else None)"

subsection \<open>ChromaDB.queryDocuments (lib/db/chroma/index.ts)\<close>

text \<open>
  What \<open>collection.query\<close> of the chromadb package returns for the one query vector:
  \<open>results.ids[0]\<close>, \<open>results.distances[0]\<close>, \<open>results.documents[0]\<close> and
  \<open>results.metadatas[0]\<close>; each may be missing, and so may single entries.
\<close>

record chroma_results =
  ids0 :: "jsstring list option"
  distances0 :: "real option list option"
  documents0 :: "jsstring option list option"
  metadatas0 :: "metadata option list option"

text \<open>\<open>xss[0]?.[i] ?? dflt\<close>\<close>

definition entry_or :: "'a option list option \<Rightarrow> nat \<Rightarrow> 'a \<Rightarrow> 'a" where
  "entry_or xs0 i dflt =
     (case xs0 of
        None \<Rightarrow> dflt
      | Some xs \<Rightarrow> (case at_index xs i of Some (Some x) \<Rightarrow> x | _ \<Rightarrow> dflt))"

text \<open>The body of the \<open>for\<close> loop that converts one hit.\<close>

definition chroma_document :: "chroma_results \<Rightarrow> jsstring list \<Rightarrow> nat \<Rightarrow> document" where
  "chroma_document results ids i =
     (let cosineDistance = entry_or (distances0 results) i 2;
          cosineSimilarity = 1 - cosineDistance
      in \<lparr> doc_id = ids ! i,
           doc_content = entry_or (documents0 results) i [],
           doc_metadata = entry_or (metadatas0 results) i [],
           similarity = Some cosineSimilarity \<rparr>)"

definition chroma_documents :: "chroma_results \<Rightarrow> document list" where
  "chroma_documents results =
     (case ids0 results of
        None \<Rightarrow> []
      | Some ids \<Rightarrow> map (chroma_document results ids) [0..<length ids])"

subsection \<open>PostgresDB.queryDocuments (lib/db/pg/index.ts)\<close>

record knowledge_chunk =
  chunk_id :: nat
  file_id :: nat
  chunk_text :: jsstring
  embedding :: "real list"

text \<open>
  The select list of the query, for one row of \<open>knowledge_chunks\<close>.  The operator
  \<open><=>\<close> of pgvector, the cosine distance, is the parameter \<open>cosine_distance\<close>.
  \<open>id::text\<close> is the parameter \<open>id_text\<close>.
\<close>

definition pg_similarity :: "real \<Rightarrow> real" where
  "pg_similarity distance = 1 - distance"

definition pg_row ::
  "(real list \<Rightarrow> real list \<Rightarrow> real) \<Rightarrow> (nat \<Rightarrow> jsstring) \<Rightarrow> real list \<Rightarrow> knowledge_chunk \<Rightarrow> document"
where
  "pg_row cosine_distance id_text queryVector row =
     \<lparr> doc_id = id_text (chunk_id row),
       doc_content = chunk_text row,
       doc_metadata = [(js ''file_id'', id_text (file_id row))],
       similarity = Some (pg_similarity (cosine_distance (embedding row) queryVector)) \<rparr>"

text \<open>
  \<open>ORDER BY similarity DESC LIMIT $2\<close>; rows of equal similarity keep the order of the
  table.  A failure anywhere, also of the embedding of the query (\<open>None\<close>), is caught
  and gives the empty list.
\<close>

definition similarity_of :: "document \<Rightarrow> real" where
  "similarity_of d = (case similarity d of Some s \<Rightarrow> s | None \<Rightarrow> 0)"

definition pg_queryDocuments ::
  "(real list \<Rightarrow> real list \<Rightarrow> real) \<Rightarrow> (nat \<Rightarrow> jsstring) \<Rightarrow> knowledge_chunk list
     \<Rightarrow> real list option \<Rightarrow> nat \<Rightarrow> document list"
where
  "pg_queryDocuments cosine_distance id_text rows queryEmbedding topK =
     (case queryEmbedding of
        None \<Rightarrow> []
      | Some queryVector \<Rightarrow>
          take topK (sort_key (\<lambda>d. - similarity_of d)
            (map (pg_row cosine_distance id_text queryVector) rows)))"

section \<open>The vector-store factory (lib/db/index.ts, getDbInstance)\<close>

text \<open>\<open>a || b\<close> on optional strings: \<open>undefined\<close> and the empty string are falsy.\<close>

definition js_or :: "jsstring option \<Rightarrow> jsstring option \<Rightarrow> jsstring option" where
  "js_or a b = (case a of None \<Rightarrow> b | Some s \<Rightarrow> if s = [] then b else Some s)"

definition truthy :: "jsstring option \<Rightarrow> bool" where
  "truthy a = (case a of None \<Rightarrow> False | Some s \<Rightarrow> s \<noteq> [])"




record process_env =
  DATABASE_TYPE :: "jsstring option"
  EMBEDDING_MODEL_TYPE :: "jsstring option"






text \<open>Sample inputs: no environment variables, \<open>init()\<close> always succeeds.\<close>

definition no_env :: process_env where
  "no_env = \<lparr> DATABASE_TYPE = None, EMBEDDING_MODEL_TYPE = None \<rparr>"






text \<open>A Chroma answer with one hit at distance 0 and one at distance 2, and two rows of
  \<open>knowledge_chunks\<close>; the sample distance reads the first component of the stored vector.\<close>

definition sample_results :: chroma_results where
  "sample_results =
     \<lparr> ids0 = Some [js ''a'', js ''b''], distances0 = Some [Some 0, Some 2],
       documents0 = Some [Some (js ''same''), Some (js ''opposite'')], metadatas0 = None \<rparr>"

definition sample_distance :: "real list \<Rightarrow> real list \<Rightarrow> real" where
  "sample_distance v w = (case v of [] \<Rightarrow> 1 | x # xs \<Rightarrow> x)"

definition near_row :: knowledge_chunk where
  "near_row = \<lparr> chunk_id = 1, file_id = 1, chunk_text = js ''same'', embedding = [0] \<rparr>"

definition far_row :: knowledge_chunk where
  "far_row = \<lparr> chunk_id = 2, file_id = 1, chunk_text = js ''opposite'', embedding = [2] \<rparr>"

section \<open>PostgresDB.seed (lib/db/pg/index.ts)\<close>

text \<open>
  The two tables that \<open>migrate()\<close> creates.  \<open>created_at\<close> of \<open>knowledge_files\<close> is left
  out: nothing reads it.  The two \<open>SERIAL\<close> columns draw their values from sequences,
  whose last values are part of the store; \<open>dimensions\<close> is the \<open>n\<close> of the column type
  \<open>VECTOR(n)\<close>.
\<close>

record knowledge_file =
  kf_id :: nat
  file_name :: jsstring
  file_content :: jsstring

record pg_store =
  knowledge_files :: "knowledge_file list"
  knowledge_chunks :: "knowledge_chunk list"
  files_id_seq :: nat
  chunks_id_seq :: nat
  dimensions :: nat

text \<open>
  What \<open>seed\<close> calls outside the repository's own code: the connection pool, \<open>fs\<close> and
  \<open>path\<close> of Node, the embedding service behind \<open>getEmbedding(chunk, 'search_document',
  model)\<close> (in the older copy of the file \<open>getOllamaEmbedding\<close>), and the recursive
  splitter that the chunker uses.  A call that can throw returns the message on the left.
\<close>

record seed_env =
  pool_connect :: "jsstring option"
  fs_readdir :: "jsstring \<Rightarrow> jsstring + jsstring list"
  fs_readFile :: "jsstring \<Rightarrow> jsstring + jsstring"
  path_join :: "jsstring \<Rightarrow> jsstring \<Rightarrow> jsstring"
  path_extname :: "jsstring \<Rightarrow> jsstring"
  embed_document :: "jsstring \<Rightarrow> jsstring + real list"
  recursive_splitter :: splitter

text \<open>\<open>TRUNCATE TABLE knowledge_files CASCADE\<close> empties the table and, through the
  foreign key of \<open>knowledge_chunks\<close>, that table too.  The sequences go on counting.\<close>

definition truncate_knowledge_files_cascade :: "pg_store \<Rightarrow> pg_store" where
  "truncate_knowledge_files_cascade db = db \<lparr> knowledge_files := [], knowledge_chunks := [] \<rparr>"

text \<open>\<open>INSERT INTO knowledge_files (file_name, content) VALUES ($1, $2) RETURNING id\<close>;
  \<open>file_name\<close> is \<open>UNIQUE\<close>.\<close>

definition insert_knowledge_file ::
  "jsstring \<Rightarrow> jsstring \<Rightarrow> pg_store \<Rightarrow> (jsstring + nat) \<times> pg_store"
where
  "insert_knowledge_file fileName fileText db =
     (let new_id = Suc (files_id_seq db);
          db1 = db \<lparr> files_id_seq := new_id \<rparr>
      in if fileName \<in> set (map file_name (knowledge_files db))
         then (Inl (js ''duplicate key value violates unique constraint''), db1)
         else (Inr new_id,
               db1 \<lparr> knowledge_files := knowledge_files db
                        @ [\<lparr> kf_id = new_id, file_name = fileName, file_content = fileText \<rparr>] \<rparr>))"

text \<open>\<open>INSERT INTO knowledge_chunks (file_id, chunk_text, embedding) VALUES ($1, $2, $3)\<close>;
  the vector must have the dimension of the column and the file must exist.\<close>

definition insert_knowledge_chunk ::
  "nat \<Rightarrow> jsstring \<Rightarrow> real list \<Rightarrow> pg_store \<Rightarrow> (jsstring + unit) \<times> pg_store"
where
  "insert_knowledge_chunk fileId chunk vec db =
     (let new_id = Suc (chunks_id_seq db);
          db1 = db \<lparr> chunks_id_seq := new_id \<rparr>
      in if length vec \<noteq> dimensions db
         then (Inl (js ''expected different vector dimensions''), db1)
         else if fileId \<notin> set (map kf_id (knowledge_files db))
         then (Inl (js ''violates foreign key constraint''), db1)
         else (Inr (),
               db1 \<lparr> knowledge_chunks := knowledge_chunks db
                        @ [\<lparr> chunk_id = new_id, file_id = fileId, chunk_text = chunk,
                             embedding = vec \<rparr>] \<rparr>))"

text \<open>The inner loop \<open>for (const chunk of chunks)\<close>.\<close>

fun seed_chunks ::
  "seed_env \<Rightarrow> nat \<Rightarrow> jsstring list \<Rightarrow> pg_store \<Rightarrow> (jsstring + unit) \<times> pg_store"
where
  "seed_chunks env fileId [] db = (Inr (), db)"
| "seed_chunks env fileId (chunk # chunks) db =
     (case embed_document env chunk of
        Inl message \<Rightarrow> (Inl message, db)
      | Inr vec \<Rightarrow>
          (case insert_knowledge_chunk fileId chunk vec db of
             (Inl message, db1) \<Rightarrow> (Inl message, db1)
           | (Inr _, db1) \<Rightarrow> seed_chunks env fileId chunks db1))"

text \<open>The outer loop \<open>for (const fileName of files)\<close>; \<open>eligible\<close> is the test on the
  extension whose failure makes the loop \<open>continue\<close>.\<close>

fun seed_files ::
  "seed_env \<Rightarrow> (jsstring \<Rightarrow> bool) \<Rightarrow> jsstring \<Rightarrow> jsstring list \<Rightarrow> pg_store
     \<Rightarrow> (jsstring + unit) \<times> pg_store"
where
  "seed_files env eligible directoryPath [] db = (Inr (), db)"
| "seed_files env eligible directoryPath (fileName # files) db =
     (if \<not> eligible fileName then seed_files env eligible directoryPath files db
      else
        (case fs_readFile env (path_join env directoryPath fileName) of
           Inl message \<Rightarrow> (Inl message, db)
         | Inr fileText \<Rightarrow>
             (case insert_knowledge_file fileName fileText db of
                (Inl message, db1) \<Rightarrow> (Inl message, db1)
              | (Inr fileId, db1) \<Rightarrow>
                  (case seed_chunks env fileId
                          (universalChunker (recursive_splitter env) fileText) db1 of
                     (Inl message, db2) \<Rightarrow> (Inl message, db2)
                   | (Inr _, db2) \<Rightarrow> seed_files env eligible directoryPath files db2))))"

definition seed_with ::
  "(jsstring \<Rightarrow> bool) \<Rightarrow> seed_env \<Rightarrow> jsstring \<Rightarrow> pg_store \<Rightarrow> (jsstring + unit) \<times> pg_store"
where
  "seed_with eligible env directoryPath db =
     (case pool_connect env of
        Some message \<Rightarrow> (Inl message, db)
      | None \<Rightarrow>
          (let db1 = truncate_knowledge_files_cascade db in
           case fs_readdir env directoryPath of
             Inl message \<Rightarrow> (Inl message, db1)
           | Inr files \<Rightarrow> seed_files env eligible directoryPath files db1))"

text \<open>The current file: \<open>if (path.extname(fileName) !== '.md' && path.extname(fileName)
  !== '.txt') continue\<close>.\<close>

definition md_or_txt :: "seed_env \<Rightarrow> jsstring \<Rightarrow> bool" where
  "md_or_txt env fileName \<longleftrightarrow>
     \<not> (path_extname env fileName \<noteq> js ''.md'' \<and> path_extname env fileName \<noteq> js ''.txt'')"

definition PostgresDB_seed ::
  "seed_env \<Rightarrow> jsstring \<Rightarrow> pg_store \<Rightarrow> (jsstring + unit) \<times> pg_store"
where
  "PostgresDB_seed env directoryPath db = seed_with (md_or_txt env) env directoryPath db"

text \<open>The older copy of the file: \<open>if (path.extname(fileName) !== '.txt') continue\<close>.\<close>

definition txt_only :: "seed_env \<Rightarrow> jsstring \<Rightarrow> bool" where
  "txt_only env fileName \<longleftrightarrow> \<not> (path_extname env fileName \<noteq> js ''.txt'')"

definition PostgresDB_seed_txt ::
  "seed_env \<Rightarrow> jsstring \<Rightarrow> pg_store \<Rightarrow> (jsstring + unit) \<times> pg_store"
where
  "PostgresDB_seed_txt env directoryPath db = seed_with (txt_only env) env directoryPath db"

subsection \<open>What a successful seeding is expected to store\<close>

text \<open>The text of a file of the directory, empty if it cannot be read.\<close>

definition text_of :: "seed_env \<Rightarrow> jsstring \<Rightarrow> jsstring \<Rightarrow> jsstring" where
  "text_of env directoryPath fileName =
     (case fs_readFile env (path_join env directoryPath fileName) of
        Inl message \<Rightarrow> []
      | Inr fileText \<Rightarrow> fileText)"

definition expected_files ::
  "seed_env \<Rightarrow> (jsstring \<Rightarrow> bool) \<Rightarrow> jsstring \<Rightarrow> jsstring list \<Rightarrow> (jsstring \<times> jsstring) list"
where
  "expected_files env eligible directoryPath files =
     map (\<lambda>fileName. (fileName, text_of env directoryPath fileName)) (filter eligible files)"

definition expected_chunks ::
  "seed_env \<Rightarrow> (jsstring \<Rightarrow> bool) \<Rightarrow> jsstring \<Rightarrow> jsstring list \<Rightarrow> (jsstring \<times> jsstring) list"
where
  "expected_chunks env eligible directoryPath files =
     concat (map (\<lambda>fileName.
         map (\<lambda>chunk. (fileName, chunk))
           (universalChunker (recursive_splitter env) (text_of env directoryPath fileName)))
       (filter eligible files))"

text \<open>The rows of the store, with the owning file's name in place of its id.\<close>

definition stored_files :: "pg_store \<Rightarrow> (jsstring \<times> jsstring) list" where
  "stored_files db = map (\<lambda>f. (file_name f, file_content f)) (knowledge_files db)"

definition owner_name :: "pg_store \<Rightarrow> nat \<Rightarrow> jsstring" where
  "owner_name db fileId =
     (case filter (\<lambda>f. kf_id f = fileId) (knowledge_files db) of
        [] \<Rightarrow> []
      | f # fs \<Rightarrow> file_name f)"

definition stored_chunks :: "pg_store \<Rightarrow> (jsstring \<times> jsstring) list" where
  "stored_chunks db =
     map (\<lambda>c. (owner_name db (file_id c), chunk_text c)) (knowledge_chunks db)"

subsection \<open>A sample directory and a sample store\<close>

text \<open>The extension of a name, for the sample: from the last dot on.\<close>

definition sample_extname :: "jsstring \<Rightarrow> jsstring" where
  "sample_extname fileName =
     (if 0x2E \<in> set fileName
      then 0x2E # rev (takeWhile (\<lambda>c. c \<noteq> 0x2E) (rev fileName))
      else [])"

definition sample_env :: seed_env where
  "sample_env =
     \<lparr> pool_connect = None,
       fs_readdir = (\<lambda>d. Inr [js ''notes.md'', js ''logo.png'']),
       fs_readFile = (\<lambda>p. Inr (js ''alpha beta gamma delta'')),
       path_join = (\<lambda>d f. d @ js ''/'' @ f),
       path_extname = sample_extname,
       embed_document = (\<lambda>t. Inr [1, 0]),
       recursive_splitter = no_split \<rparr>"

definition old_store :: pg_store where
  "old_store =
     \<lparr> knowledge_files = [\<lparr> kf_id = 1, file_name = js ''old.txt'', file_content = js ''old text'' \<rparr>],
       knowledge_chunks = [\<lparr> chunk_id = 1, file_id = 1, chunk_text = js ''old text of before'',
                            embedding = [0, 1] \<rparr>],
       files_id_seq = 1, chunks_id_seq = 1, dimensions = 2 \<rparr>"

text \<open>Ids come from the sequence, and every chunk has its file.\<close>

definition store_ok :: "pg_store \<Rightarrow> bool" where
  "store_ok db \<longleftrightarrow>
     (\<forall>f \<in> set (knowledge_files db). kf_id f \<le> files_id_seq db)
     \<and> (\<forall>c \<in> set (knowledge_chunks db). file_id c \<in> kf_id ` set (knowledge_files db))"

section \<open>The test-run orchestrator (app/api/run-task/route.ts)\<close>

subsection \<open>Data\<close>

record test_case =
  tc_id :: int
  tc_tag :: jsstring
  tc_source :: jsstring
  tc_question :: jsstring
  tc_answer :: jsstring
  tc_score :: int

text \<open>
  The parts of the request body that decide what the run does.  The generation
  parameters, the system prompt and the address of the tool server are only handed on to
  \<open>handleChat\<close> and are left out.
\<close>

record run_config =
  testCases :: "test_case list"
  loopCount :: nat
  projectName :: jsstring
  databaseType :: "jsstring option"
  embeddingModel :: "jsstring option"
  rerankerModel :: "jsstring option"
  work_model :: jsstring
  score_model :: jsstring

record token_usage =
  total_tokens :: nat
  prompt_tokens :: nat
  completion_tokens :: nat

record duration_usage =
  total_duration :: real
  load_duration :: real
  prompt_eval_duration :: real
  eval_duration :: real

text \<open>What \<open>handleChat\<close> resolves to; \<open>cr_content\<close> is \<open>None\<close> when \<open>content\<close> is no string.\<close>

record chat_result =
  cr_content :: "jsstring option"
  cr_usage :: "token_usage option"
  cr_duration :: "duration_usage option"

text \<open>One call of \<open>handleChat\<close>: it throws (an error with or without a message) or
  resolves (to an object, or to nothing).\<close>

datatype chat_outcome = ChatThrows "jsstring option" | ChatReturns "chat_result option"

record safe_call_result =
  success :: bool
  sc_content :: "jsstring option"
  sc_tokenUsage :: "token_usage option"
  sc_durationUsage :: "duration_usage option"
  sc_error :: "jsstring option"

record result_entry =
  e_id :: int
  e_tag :: jsstring
  e_source :: jsstring
  e_question :: jsstring
  e_standardAnswer :: jsstring
  e_modelAnswer :: jsstring
  e_maxScore :: int
  e_score :: int
  e_workTokenUsage :: nat
  e_workDurationUsage :: int
  e_scoreTokenUsage :: nat
  e_scoreDurationUsage :: int
  e_dbQueryDuration :: real
  e_rerankDuration :: real
  e_databaseName :: "jsstring option"
  e_embeddingModelName :: "jsstring option"
  e_rerankModelName :: "jsstring option"
  e_error :: "jsstring option"

record rerank_input =
  ri_index :: nat
  ri_content :: jsstring

record rerank_result =
  rr_index :: nat
  rr_content :: jsstring
  rr_score :: "real option"

subsection \<open>Events, effects and the outside world\<close>

text \<open>
  The frames of the progress stream.  The fixed texts of the log and update messages are
  not spelled out; a constructor stands for each message and carries the values that the
  source puts into it.  The messages of the \<open>error\<close> and \<open>done\<close> frames are spelled out.
\<close>

datatype task_kind = Answering | Evaluating

datatype log_message =
    ResultDirCreated
  | LoadingProject jsstring
  | Retrieving int
  | RerankDone real
  | RetrievalFailed jsstring
  | AnswerFailed int
  | ScoringFailed int

datatype event =
    EvLog log_message
  | EvUpdate task_kind int real nat
  | EvStateAnswer int jsstring jsstring
  | EvStateScore int int
  | EvTokenUsage nat
  | EvError jsstring
  | EvDone jsstring

text \<open>What is sent to a model: the one user message of the work model, or the values
  that fill the prompt of the scoring model (question, standard answer, model answer,
  maximal score).\<close>

datatype chat_request =
    WorkMessages jsstring
  | ScoreMessages jsstring jsstring jsstring int

datatype log_text = QuestionHeader int jsstring | FinalAnswer jsstring

text \<open>What the processing of one test case does to the outside, in order.\<close>

datatype effect =
    Emit event
  | AppendToLogFile nat log_text
  | Delay nat
  | HandleChat jsstring chat_request

text \<open>What a run does to the outside: the effects of its test cases, and the directories
  and files written per run and per loop (the number is the loop).\<close>

datatype action =
    Within effect
  | MkdirBase
  | MkdirLoop nat
  | EnsureLogFileExists nat
  | WriteResults nat "result_entry list"
  | CloseStream

text \<open>
  The places where the run looks at the cancellation flag: every \<open>onProgress\<close> call (the
  callback that POST passes throws when the request is aborted) and every
  \<open>isCancelled()\<close> test.  \<open>InCase loop i place\<close> is a place in the processing of the test
  case at position \<open>i\<close> (from 0) in the loop \<open>loop\<close> (from 1).
\<close>

datatype case_place =
    AtUpdateAnswer
  | AtLogRetrieving
  | AtLogRerankDone
  | AtLogRetrievalFailed
  | BeforeWorkCall
  | AtTokenUsageWork
  | AtLogAnswerFailed
  | AtStateAnswer
  | AtUpdateScore
  | BeforeScoreCall
  | AtTokenUsageScore
  | AtLogScoreFailed
  | AtStateScore

datatype place = AtLoading | AtLoopStart nat | InCase nat nat case_place | AtEnd

text \<open>
  The outside world of one run.  \<open>aborted p\<close>: the request is seen aborted at the place
  \<open>p\<close>.  \<open>vector_query loop i\<close>: what \<open>getDbInstance\<close> followed by \<open>queryDocuments(question,
  10)\<close> gives for the test case, the message of the error if one of them throws.
  \<open>rerank_service loop i\<close>: what the exchange with the rerank service gives.
  \<open>work_chat loop i n\<close> and \<open>score_chat loop i n\<close>: the outcome of attempt \<open>n\<close> (from 0) of
  the call of the work and of the scoring model.  \<open>db_elapsed\<close> and \<open>rerank_elapsed\<close>: the
  differences of the \<open>performance.now()\<close> readings.  File-system calls are taken to
  succeed.
\<close>

record world =
  aborted :: "place \<Rightarrow> bool"
  vector_query :: "nat \<Rightarrow> nat \<Rightarrow> jsstring + document list"
  rerank_service :: "nat \<Rightarrow> nat \<Rightarrow> jsstring + rerank_result list"
  work_chat :: "nat \<Rightarrow> nat \<Rightarrow> nat \<Rightarrow> chat_outcome"
  score_chat :: "nat \<Rightarrow> nat \<Rightarrow> nat \<Rightarrow> chat_outcome"
  db_elapsed :: "nat \<Rightarrow> nat \<Rightarrow> real"
  rerank_elapsed :: "nat \<Rightarrow> nat \<Rightarrow> real"
  penv :: process_env

subsection \<open>Sequencing\<close>

text \<open>A step gives its effects and either the message of the error it throws or its value.\<close>

type_synonym 'a step = "effect list \<times> (jsstring + 'a)"

definition ret :: "'a \<Rightarrow> 'a step" where
  "ret x = ([], Inr x)"

definition throw :: "jsstring \<Rightarrow> 'a step" where
  "throw message = ([], Inl message)"

definition perform :: "effect \<Rightarrow> unit step" where
  "perform e = ([e], Inr ())"

definition and_then :: "'a step \<Rightarrow> ('a \<Rightarrow> 'b step) \<Rightarrow> 'b step" where
  "and_then m f =
     (case m of
        (es, Inl message) \<Rightarrow> (es, Inl message)
      | (es, Inr x) \<Rightarrow> (case f x of (es', r) \<Rightarrow> (es @ es', r)))"

text \<open>The message of \<open>new Error('\<dots>')\<close> that stands for cancellation (eight Chinese
  characters), and the message of the frame that POST sends for it (the same with an
  ideographic full stop).\<close>

definition cancelled_message :: jsstring where
  "cancelled_message = [0x4EFB, 0x52A1, 0x5DF2, 0x88AB, 0x7528, 0x6237, 0x53D6, 0x6D88]"

definition cancelled_frame_message :: jsstring where
  "cancelled_frame_message = cancelled_message @ [0x3002]"

definition unknown_error_message :: jsstring where
  "unknown_error_message = [0x53D1, 0x751F, 0x672A, 0x77E5, 0x9519, 0x8BEF]"

definition done_message :: jsstring where
  "done_message = [0x6240, 0x6709, 0x4EFB, 0x52A1, 0x5DF2, 0x6210, 0x529F, 0x5B8C, 0x6210, 0x3002]"

text \<open>\<open>"N/A (\<dots>)"\<close>, the initial value of \<open>modelAnswer\<close>.\<close>

definition placeholder_answer :: jsstring where
  "placeholder_answer = js ''N/A ('' @ [0x8C03, 0x7528, 0x5931, 0x8D25] @ js '')''"

text \<open>The callback \<open>onProgress\<close> that POST passes to \<open>runTask\<close>, and the test
  \<open>if (isCancelled()) throw new Error(\<dots>)\<close>.\<close>

definition onProgress :: "world \<Rightarrow> place \<Rightarrow> event \<Rightarrow> unit step" where
  "onProgress w p ev = (if aborted w p then throw cancelled_message else perform (Emit ev))"

definition throw_if_cancelled :: "world \<Rightarrow> place \<Rightarrow> unit step" where
  "throw_if_cancelled w p = (if aborted w p then throw cancelled_message else ret ())"

subsection \<open>safeModelCall\<close>

text \<open>
  The loop \<open>for (let i = 0; i <= retries; i++)\<close>.  \<open>chat i\<close> is the outcome of the call of
  \<open>handleChat\<close> in the round \<open>i\<close>.  The result comes with the effects of the loop: the
  calls and the waits of 2000 ms.
\<close>

function safeModelCall_from ::
  "(nat \<Rightarrow> chat_outcome) \<Rightarrow> jsstring \<Rightarrow> chat_request \<Rightarrow> nat \<Rightarrow> nat
     \<Rightarrow> effect list \<times> safe_call_result"
where
  "safeModelCall_from chat selectedModel messages retries i =
     (if i \<le> retries then
        (let round = (if i > 0 then [Delay 2000] else []) @ [HandleChat selectedModel messages];
             again = (\<lambda>failure.
               if i = retries then (round, failure)
               else (case safeModelCall_from chat selectedModel messages retries (Suc i) of
                       (es, r) \<Rightarrow> (round @ es, r)))
         in case chat i of
              ChatReturns (Some result) \<Rightarrow>
                (case cr_content result of
                   Some text \<Rightarrow>
                     (round,
                      \<lparr> success = True, sc_content = Some text, sc_tokenUsage = cr_usage result,
                        sc_durationUsage = cr_duration result, sc_error = None \<rparr>)
                 | None \<Rightarrow>
                     again \<lparr> success = False, sc_content = None, sc_tokenUsage = None,
                             sc_durationUsage = None,
                             sc_error = Some (js ''Model call succeeded but returned unexpected format.'') \<rparr>)
            | ChatReturns None \<Rightarrow>
                again \<lparr> success = False, sc_content = None, sc_tokenUsage = None,
                        sc_durationUsage = None,
                        sc_error = Some (js ''Model call succeeded but returned unexpected format.'') \<rparr>
            | ChatThrows message \<Rightarrow>
                again \<lparr> success = False, sc_content = None, sc_tokenUsage = None,
                        sc_durationUsage = None,
                        sc_error = Some (the (js_or message
                          (Some (js ''A critical error occurred during model call'')))) \<rparr>)
      else ([], \<lparr> success = False, sc_content = None, sc_tokenUsage = None,
                  sc_durationUsage = None,
                  sc_error = Some (js ''Exited retry loop unexpectedly'') \<rparr>))"
  by pat_completeness auto
termination
  by (relation "measure (\<lambda>(chat, selectedModel, messages, retries, i). Suc retries - i)") auto

declare safeModelCall_from.simps [simp del]

text \<open>\<open>safeModelCall(selectedModel, messages, options)\<close> with the default \<open>retries = 2\<close>.\<close>

definition safeModelCall ::
  "(nat \<Rightarrow> chat_outcome) \<Rightarrow> jsstring \<Rightarrow> chat_request \<Rightarrow> effect list \<times> safe_call_result"
where
  "safeModelCall chat selectedModel messages = safeModelCall_from chat selectedModel messages 2 0"

subsection \<open>Retrieval, reranking and the augmented prompt\<close>

text \<open>The local variables of the loop body that the \<open>try\<close> block assigns and the result
  entry reports.\<close>

record rag_vars =
  dbQueryDuration :: real
  rerankDuration :: real
  databaseName :: "jsstring option"
  embeddingModelName :: "jsstring option"
  rerankModelName :: "jsstring option"

text \<open>\<open>rerankDocuments\<close> (lib/reranker/reranker-service.ts): no documents, no request.\<close>

definition rerankDocuments ::
  "(jsstring + rerank_result list) \<Rightarrow> rerank_input list \<Rightarrow> jsstring + rerank_result list"
where
  "rerankDocuments service documents = (if documents = [] then Inr [] else service)"

text \<open>\<open>relevantChunks.map((chunk, index) => ({index, content: chunk.content}))\<close>\<close>

definition documentsToRerank :: "document list \<Rightarrow> rerank_input list" where
  "documentsToRerank relevantChunks =
     map (\<lambda>(index, chunk). \<lparr> ri_index = index, ri_content = doc_content chunk \<rparr>)
       (zip [0..<length relevantChunks] relevantChunks)"

text \<open>
  The \<open>try\<close> block up to the answer of the reranker: the variables as far as they have
  been assigned, and either the message of the error thrown or the retrieved chunks and
  the reranked results.
\<close>

definition retrieve_and_rerank ::
  "world \<Rightarrow> run_config \<Rightarrow> nat \<Rightarrow> nat
     \<Rightarrow> rag_vars \<times> (jsstring + document list \<times> rerank_result list)"
where
  "retrieve_and_rerank w config loop i =
     (let vars0 = \<lparr> dbQueryDuration = 0, rerankDuration = 0, databaseName = None,
                    embeddingModelName = None, rerankModelName = None \<rparr>;
          dbType = js_or (databaseType config) (DATABASE_TYPE (penv w))
      in if \<not> truthy dbType
         then (vars0, Inl (js ''Database type must be configured in project settings or DATABASE_TYPE environment variable.''))
         else
           (let vars1 = vars0 \<lparr> databaseName := dbType,
                                embeddingModelName := embeddingModel config \<rparr>
            in case vector_query w loop i of
                 Inl message \<Rightarrow> (vars1, Inl message)
               | Inr relevantChunks \<Rightarrow>
                   (let vars2 = vars1 \<lparr> dbQueryDuration := db_elapsed w loop i \<rparr>;
                        vars3 = vars2 \<lparr> rerankModelName :=
                                  js_or (rerankerModel config) (Some (js ''BAAI/bge-reranker-v2-m3'')) \<rparr>
                    in case rerankDocuments (rerank_service w loop i)
                              (documentsToRerank relevantChunks) of
                         Inl message \<Rightarrow> (vars3, Inl message)
                       | Inr rerankedResults \<Rightarrow>
                           (vars3 \<lparr> rerankDuration := rerank_elapsed w loop i \<rparr>,
                            Inr (relevantChunks, rerankedResults)))))"

text \<open>A chunk of the context: of the spread original chunk only \<open>content\<close> is read later,
  and \<open>similarity\<close>.  Both are \<open>undefined\<close> where the reranker names an index that the
  retrieved list does not have, or gives no score.\<close>

record context_chunk =
  cc_content :: "jsstring option"
  cc_similarity :: "real option"

definition SIMILARITY_THRESHOLD :: real where
  "SIMILARITY_THRESHOLD = 0.8"

text \<open>\<open>rerankedResults.slice(0, topN_rerank).map(\<dots>)\<close> with \<open>topN_rerank = 3\<close>\<close>

definition finalChunks :: "document list \<Rightarrow> rerank_result list \<Rightarrow> context_chunk list" where
  "finalChunks relevantChunks rerankedResults =
     map (\<lambda>result.
            \<lparr> cc_content = map_option doc_content (at_index relevantChunks (rr_index result)),
              cc_similarity = rr_score result \<rparr>)
       (take 3 rerankedResults)"

text \<open>\<open>finalChunks.filter(chunk => (chunk.similarity ?? 0) >= SIMILARITY_THRESHOLD)\<close>\<close>

definition above_threshold :: "context_chunk list \<Rightarrow> context_chunk list" where
  "above_threshold chunks =
     filter (\<lambda>chunk. (case cc_similarity chunk of None \<Rightarrow> 0 | Some s \<Rightarrow> s) \<ge> SIMILARITY_THRESHOLD)
       chunks"

text \<open>\<open>relevantChunks.slice(0, 3).map(chunk => ({...chunk, similarity: chunk.similarity ?? 0}))\<close>\<close>

definition first_three_raw :: "document list \<Rightarrow> context_chunk list" where
  "first_three_raw relevantChunks =
     map (\<lambda>chunk.
            \<lparr> cc_content = Some (doc_content chunk),
              cc_similarity = Some (case similarity chunk of None \<Rightarrow> 0 | Some s \<Rightarrow> s) \<rparr>)
       (take 3 relevantChunks)"

definition finalContextChunks :: "document list \<Rightarrow> rerank_result list \<Rightarrow> context_chunk list" where
  "finalContextChunks relevantChunks rerankedResults =
     (let filtered = above_threshold (finalChunks relevantChunks rerankedResults)
      in if length filtered = 0 \<and> length relevantChunks > 0
         then first_three_raw relevantChunks
         else filtered)"

text \<open>\<open>xs.join('\n')\<close> and the lines \<open>`- ${chunk.content}`\<close>\<close>

fun join_lines :: "jsstring list \<Rightarrow> jsstring" where
  "join_lines [] = []"
| "join_lines [x] = x"
| "join_lines (x # y # ys) = x @ [LF] @ join_lines (y # ys)"

definition context_line :: "context_chunk \<Rightarrow> jsstring" where
  "context_line chunk =
     js ''- '' @ (case cc_content chunk of None \<Rightarrow> js ''undefined'' | Some text \<Rightarrow> text)"

text \<open>The template of the augmented prompt, with its line breaks and indentation; the two
  headings are the Chinese ones of the source.\<close>

definition augmented_template :: "jsstring \<Rightarrow> jsstring \<Rightarrow> jsstring" where
  "augmented_template context question =
     [LF] @ js ''          ---'' @ [LF] @ js ''          ''
       @ [0x3010, 0x77E5, 0x8BC6, 0x5E93, 0x77E5, 0x8BC6, 0x3011, LF] @ js ''          ''
       @ context
       @ [LF] @ js ''          ---'' @ [LF, LF] @ js ''          ''
       @ [0x3010, 0x7528, 0x6237, 0x95EE, 0x9898, 0x3011, LF] @ js ''          ''
       @ question
       @ [LF] @ js ''          ''"

definition prompt_with :: "context_chunk list \<Rightarrow> jsstring \<Rightarrow> jsstring" where
  "prompt_with chunks question =
     (if length chunks > 0
      then augmented_template (join_lines (map context_line chunks)) question
      else question)"

text \<open>
  The whole \<open>try \<dots> catch (dbError)\<close>.  The log line "rerank done" is sent inside the
  \<open>try\<close>, so what \<open>onProgress\<close> throws there is caught as well.  The \<open>catch\<close> sends a
  warning, which can throw in its turn, and falls back to the question.
\<close>

definition fall_back_to_question ::
  "world \<Rightarrow> nat \<Rightarrow> nat \<Rightarrow> test_case \<Rightarrow> rag_vars \<Rightarrow> jsstring \<Rightarrow> (rag_vars \<times> jsstring) step"
where
  "fall_back_to_question w loop i testCase vars message =
     and_then (onProgress w (InCase loop i AtLogRetrievalFailed) (EvLog (RetrievalFailed message)))
       (\<lambda>_. ret (vars, tc_question testCase))"

definition retrieval ::
  "world \<Rightarrow> run_config \<Rightarrow> nat \<Rightarrow> nat \<Rightarrow> test_case \<Rightarrow> (rag_vars \<times> jsstring) step"
where
  "retrieval w config loop i testCase =
     (case retrieve_and_rerank w config loop i of
        (vars, Inl message) \<Rightarrow> fall_back_to_question w loop i testCase vars message
      | (vars, Inr (relevantChunks, rerankedResults)) \<Rightarrow>
          if aborted w (InCase loop i AtLogRerankDone)
          then fall_back_to_question w loop i testCase vars cancelled_message
          else and_then (perform (Emit (EvLog (RerankDone (rerankDuration vars)))))
                 (\<lambda>_. ret (vars, prompt_with (finalContextChunks relevantChunks rerankedResults)
                                   (tc_question testCase))))"

subsection \<open>Answering and scoring one test case\<close>

text \<open>The two counters of \<open>runTask\<close> that live across test cases and loops.\<close>

record run_state =
  currentTask :: nat
  totalTokenUsage :: nat

definition totalTasks :: "run_config \<Rightarrow> nat" where
  "totalTasks config = (length (testCases config) * 2) * loopCount config"

definition progress :: "run_config \<Rightarrow> nat \<Rightarrow> real" where
  "progress config task = (real task / real (totalTasks config)) * 100"

text \<open>The values that the body derives from the result of a call.\<close>

definition tokens_used :: "safe_call_result \<Rightarrow> nat" where
  "tokens_used r = (case sc_tokenUsage r of None \<Rightarrow> 0 | Some u \<Rightarrow> total_tokens u)"

text \<open>\<open>Math.round(total_duration / 1e6)\<close>\<close>

definition duration_used :: "safe_call_result \<Rightarrow> int" where
  "duration_used r =
     (case sc_durationUsage r of None \<Rightarrow> 0 | Some d \<Rightarrow> \<lfloor>total_duration d / 1000000 + 1 / 2\<rfloor>)"

definition modelAnswer_of :: "safe_call_result \<Rightarrow> jsstring" where
  "modelAnswer_of workResult =
     (if success workResult
      then (case sc_content workResult of None \<Rightarrow> [] | Some text \<Rightarrow> text)
      else placeholder_answer)"

text \<open>\<open>parseInt(content.trim().match(/\d+/)?.[0] || '0', 10)\<close>: the first run of decimal
  digits, read as a number.\<close>

definition is_digit :: "jschar \<Rightarrow> bool" where
  "is_digit c \<longleftrightarrow> 0x30 \<le> c \<and> c \<le> 0x39"

definition parse_score :: "jsstring \<Rightarrow> int" where
  "parse_score text =
     foldl (\<lambda>n c. 10 * n + uint (c - 0x30)) 0
       (takeWhile is_digit (dropWhile (\<lambda>c. \<not> is_digit c) (trim text)))"

text \<open>\<open>None\<close>: the scoring was skipped.\<close>

definition score_of :: "safe_call_result option \<Rightarrow> int" where
  "score_of scoreResult =
     (case scoreResult of
        None \<Rightarrow> 0
      | Some r \<Rightarrow>
          if success r
          then parse_score (case sc_content r of None \<Rightarrow> [] | Some text \<Rightarrow> text)
          else 0)"

text \<open>After a call: add the tokens to the total and send it, if the result has a usage.\<close>

definition account_tokens ::
  "world \<Rightarrow> place \<Rightarrow> safe_call_result \<Rightarrow> run_state \<Rightarrow> run_state step"
where
  "account_tokens w p r st =
     (case sc_tokenUsage r of
        None \<Rightarrow> ret st
      | Some u \<Rightarrow>
          (let st1 = st \<lparr> totalTokenUsage := totalTokenUsage st + total_tokens u \<rparr>
           in and_then (onProgress w p (EvTokenUsage (totalTokenUsage st1))) (\<lambda>_. ret st1)))"

definition work_phase ::
  "world \<Rightarrow> run_config \<Rightarrow> nat \<Rightarrow> nat \<Rightarrow> test_case \<Rightarrow> jsstring \<Rightarrow> run_state
     \<Rightarrow> (safe_call_result \<times> run_state) step"
where
  "work_phase w config loop i testCase augmentedPrompt st =
     and_then (throw_if_cancelled w (InCase loop i BeforeWorkCall)) (\<lambda>_.
     and_then (perform (AppendToLogFile loop
                 (QuestionHeader (tc_id testCase) (tc_question testCase)))) (\<lambda>_.
     and_then (case safeModelCall (work_chat w loop i) (work_model config)
                      (WorkMessages augmentedPrompt) of
                 (es, workResult) \<Rightarrow> (es, Inr workResult)) (\<lambda>workResult.
     and_then (account_tokens w (InCase loop i AtTokenUsageWork) workResult st) (\<lambda>st1.
     and_then (if success workResult then ret ()
               else onProgress w (InCase loop i AtLogAnswerFailed)
                      (EvLog (AnswerFailed (tc_id testCase)))) (\<lambda>_.
     and_then (perform (AppendToLogFile loop (FinalAnswer (modelAnswer_of workResult)))) (\<lambda>_.
     and_then (onProgress w (InCase loop i AtStateAnswer)
                 (EvStateAnswer (tc_id testCase) (tc_question testCase)
                    (modelAnswer_of workResult))) (\<lambda>_.
     ret (workResult, st1))))))))"

definition score_phase ::
  "world \<Rightarrow> run_config \<Rightarrow> nat \<Rightarrow> nat \<Rightarrow> test_case \<Rightarrow> safe_call_result \<Rightarrow> run_state
     \<Rightarrow> (safe_call_result option \<times> run_state) step"
where
  "score_phase w config loop i testCase workResult st =
     (if success workResult then
        and_then (onProgress w (InCase loop i AtUpdateScore)
                    (EvUpdate Evaluating (tc_id testCase)
                       (progress config (currentTask st)) (currentTask st))) (\<lambda>_.
        and_then (throw_if_cancelled w (InCase loop i BeforeScoreCall)) (\<lambda>_.
        and_then (case safeModelCall (score_chat w loop i) (score_model config)
                         (ScoreMessages (tc_question testCase) (tc_answer testCase)
                            (modelAnswer_of workResult) (tc_score testCase)) of
                    (es, scoreResult) \<Rightarrow> (es, Inr scoreResult)) (\<lambda>scoreResult.
        and_then (account_tokens w (InCase loop i AtTokenUsageScore) scoreResult st) (\<lambda>st1.
        and_then (if success scoreResult then ret ()
                  else onProgress w (InCase loop i AtLogScoreFailed)
                         (EvLog (ScoringFailed (tc_id testCase)))) (\<lambda>_.
        ret (Some scoreResult, st1))))))
      else ret (None, st))"

text \<open>The object literal \<open>resultEntry\<close>.\<close>

definition resultEntry ::
  "test_case \<Rightarrow> rag_vars \<Rightarrow> safe_call_result \<Rightarrow> safe_call_result option \<Rightarrow> result_entry"
where
  "resultEntry testCase vars workResult scoreResult =
     \<lparr> e_id = tc_id testCase,
       e_tag = tc_tag testCase,
       e_source = tc_source testCase,
       e_question = tc_question testCase,
       e_standardAnswer = tc_answer testCase,
       e_modelAnswer = modelAnswer_of workResult,
       e_maxScore = tc_score testCase,
       e_score = score_of scoreResult,
       e_workTokenUsage = tokens_used workResult,
       e_workDurationUsage = duration_used workResult,
       e_scoreTokenUsage = (case scoreResult of None \<Rightarrow> 0 | Some r \<Rightarrow> tokens_used r),
       e_scoreDurationUsage = (case scoreResult of None \<Rightarrow> 0 | Some r \<Rightarrow> duration_used r),
       e_dbQueryDuration = dbQueryDuration vars,
       e_rerankDuration = rerankDuration vars,
       e_databaseName = databaseName vars,
       e_embeddingModelName = embeddingModelName vars,
       e_rerankModelName = rerankModelName vars,
       e_error = sc_error workResult \<rparr>"

text \<open>The body of \<open>for (const testCase of config.testCases)\<close> up to the result entry.\<close>

definition answer_case ::
  "world \<Rightarrow> run_config \<Rightarrow> nat \<Rightarrow> nat \<Rightarrow> test_case \<Rightarrow> run_state
     \<Rightarrow> (result_entry \<times> run_state) step"
where
  "answer_case w config loop i testCase st =
     (let st1 = st \<lparr> currentTask := currentTask st + 1 \<rparr> in
      and_then (onProgress w (InCase loop i AtUpdateAnswer)
                  (EvUpdate Answering (tc_id testCase)
                     (progress config (currentTask st1)) (currentTask st1))) (\<lambda>_.
      and_then (onProgress w (InCase loop i AtLogRetrieving)
                  (EvLog (Retrieving (tc_id testCase)))) (\<lambda>_.
      and_then (retrieval w config loop i testCase) (\<lambda>(vars, augmentedPrompt).
      and_then (work_phase w config loop i testCase augmentedPrompt st1) (\<lambda>(workResult, st2).
      and_then (score_phase w config loop i testCase workResult
                  (st2 \<lparr> currentTask := currentTask st2 + 1 \<rparr>)) (\<lambda>(scoreResult, st3).
      and_then (onProgress w (InCase loop i AtStateScore)
                  (EvStateScore (score_of scoreResult) (tc_score testCase))) (\<lambda>_.
      ret (resultEntry testCase vars workResult scoreResult, st3))))))))"

subsection \<open>The loops of runTask and the handler POST\<close>

text \<open>
  The rest of the body: \<open>qaResults.push(resultEntry)\<close>, the \<open>writeFile\<close> of the whole
  array to the loop's \<open>results.json\<close>, the wait of 1500 ms.  The accumulated array is
  returned also when the test case throws.
\<close>

definition process_case ::
  "world \<Rightarrow> run_config \<Rightarrow> nat \<Rightarrow> nat \<Rightarrow> test_case \<Rightarrow> run_state \<times> result_entry list
     \<Rightarrow> action list \<times> result_entry list \<times> (jsstring + run_state)"
where
  "process_case w config loop i testCase s =
     (case s of (st, qaResults) \<Rightarrow>
        (case answer_case w config loop i testCase st of
           (es, Inl message) \<Rightarrow> (map Within es, qaResults, Inl message)
         | (es, Inr (entry, st')) \<Rightarrow>
             (map Within es @ [WriteResults loop (qaResults @ [entry]), Within (Delay 1500)],
              qaResults @ [entry], Inr st')))"

fun run_cases ::
  "world \<Rightarrow> run_config \<Rightarrow> nat \<Rightarrow> nat \<Rightarrow> test_case list \<Rightarrow> run_state \<times> result_entry list
     \<Rightarrow> action list \<times> result_entry list \<times> (jsstring + run_state)"
where
  "run_cases w config loop i [] s = ([], snd s, Inr (fst s))"
| "run_cases w config loop i (testCase # rest) s =
     (case process_case w config loop i testCase s of
        (as, qaResults, Inl message) \<Rightarrow> (as, qaResults, Inl message)
      | (as, qaResults, Inr st') \<Rightarrow>
          (case run_cases w config loop (Suc i) rest (st', qaResults) of
             (bs, r) \<Rightarrow> (as @ bs, r)))"

text \<open>One round of the outer loop: the test at its head, the directory and the log file of
  the loop, then the test cases with a new, empty \<open>qaResults\<close>.\<close>

definition run_loop ::
  "world \<Rightarrow> run_config \<Rightarrow> nat \<Rightarrow> run_state \<Rightarrow> action list \<times> result_entry list \<times> (jsstring + run_state)"
where
  "run_loop w config loop st =
     (if aborted w (AtLoopStart loop) then ([], [], Inl cancelled_message)
      else (case run_cases w config loop 0 (testCases config) (st, []) of
              (as, r) \<Rightarrow> ([MkdirLoop loop, EnsureLogFileExists loop] @ as, r)))"

text \<open>\<open>for (let loop = 1; loop <= config.testConfig.loopCount; loop++)\<close>\<close>

function run_loops ::
  "world \<Rightarrow> run_config \<Rightarrow> nat \<Rightarrow> run_state \<Rightarrow> action list \<times> (jsstring + run_state)"
where
  "run_loops w config loop st =
     (if loop \<le> loopCount config then
        (case run_loop w config loop st of
           (as, qaResults, Inl message) \<Rightarrow> (as, Inl message)
         | (as, qaResults, Inr st') \<Rightarrow>
             (case run_loops w config (Suc loop) st' of (bs, r) \<Rightarrow> (as @ bs, r)))
      else ([], Inr st))"
  by pat_completeness auto
termination
  by (relation "measure (\<lambda>(w, config, loop, st). Suc (loopCount config) - loop)") auto

declare run_loops.simps [simp del]

definition runTask :: "world \<Rightarrow> run_config \<Rightarrow> action list \<times> (jsstring + run_state)" where
  "runTask w config =
     (case onProgress w AtLoading (EvLog (LoadingProject (projectName config))) of
        (es, Inl message) \<Rightarrow> (map Within es, Inl message)
      | (es, Inr _) \<Rightarrow>
          (case run_loops w config 1 \<lparr> currentTask = 0, totalTokenUsage = 0 \<rparr> of
             (as, r) \<Rightarrow> (map Within es @ as, r)))"

text \<open>
  The body of the stream that POST returns, for a request body that parses: the result
  directory, the first log frame, \<open>runTask\<close>, then the \<open>done\<close> frame unless the request is
  aborted by then, or the \<open>catch\<close> with its two branches, and the \<open>finally\<close>.
\<close>

definition POST :: "world \<Rightarrow> run_config \<Rightarrow> action list" where
  "POST w config =
     [MkdirBase, Within (Emit (EvLog ResultDirCreated))]
     @ (case runTask w config of
          (as, Inr st) \<Rightarrow>
            as @ (if \<not> aborted w AtEnd then [Within (Emit (EvDone done_message))] else [])
        | (as, Inl message) \<Rightarrow>
            as @ [Within (Emit (EvError
                    (if message = cancelled_message then cancelled_frame_message
                     else if message \<noteq> [] then message
                     else unknown_error_message)))])
     @ [CloseStream]"

subsection \<open>Reading a run\<close>

text \<open>The frames of the progress stream, in order.\<close>

fun events_of :: "action list \<Rightarrow> event list" where
  "events_of [] = []"
| "events_of (Within (Emit ev) # as) = ev # events_of as"
| "events_of (a # as) = events_of as"

text \<open>The arrays written to the \<open>results.json\<close> of a loop, in order, and the content of
  the file after the actions: the last array written, if any.\<close>

fun writes_of :: "nat \<Rightarrow> action list \<Rightarrow> result_entry list list" where
  "writes_of loop [] = []"
| "writes_of loop (WriteResults l entries # as) =
     (if l = loop then entries # writes_of loop as else writes_of loop as)"
| "writes_of loop (a # as) = writes_of loop as"

definition results_file :: "nat \<Rightarrow> action list \<Rightarrow> result_entry list option" where
  "results_file loop as =
     (case writes_of loop as of [] \<Rightarrow> None | ws \<Rightarrow> Some (last ws))"

text \<open>An entry reports a test case.\<close>

definition reports :: "result_entry \<Rightarrow> test_case \<Rightarrow> bool" where
  "reports entry testCase \<longleftrightarrow>
     e_id entry = tc_id testCase \<and> e_tag entry = tc_tag testCase
     \<and> e_source entry = tc_source testCase \<and> e_question entry = tc_question testCase
     \<and> e_standardAnswer entry = tc_answer testCase \<and> e_maxScore entry = tc_score testCase"

text \<open>An attempt that \<open>safeModelCall\<close> counts as failed: the call throws, or what it resolves
  to has no string \<open>content\<close>.\<close>

fun attempt_failed :: "chat_outcome \<Rightarrow> bool" where
  "attempt_failed (ChatThrows message) = True"
| "attempt_failed (ChatReturns None) = True"
| "attempt_failed (ChatReturns (Some result)) = (cr_content result = None)"

text \<open>The user messages sent to the work model, in order.\<close>

fun work_prompts :: "effect list \<Rightarrow> jsstring list" where
  "work_prompts [] = []"
| "work_prompts (HandleChat model (WorkMessages text) # es) = text # work_prompts es"
| "work_prompts (e # es) = work_prompts es"

text \<open>The \<open>error\<close> and \<open>done\<close> frames end the stream.\<close>

fun terminal :: "event \<Rightarrow> bool" where
  "terminal (EvError message) = True"
| "terminal (EvDone message) = True"
| "terminal ev = False"

text \<open>A step that returns a value, that is, does not throw.\<close>

definition completes :: "'a step \<Rightarrow> bool" where
  "completes m = (case snd m of Inl message \<Rightarrow> False | Inr x \<Rightarrow> True)"

text \<open>The places that the run passes before it starts on the test case at position \<open>k\<close>
  of the loop \<open>loop\<close>.\<close>

fun passed_before :: "nat \<Rightarrow> nat \<Rightarrow> place \<Rightarrow> bool" where
  "passed_before loop k AtLoading = True"
| "passed_before loop k (AtLoopStart l) = (l \<le> loop)"
| "passed_before loop k (InCase l i p) = (l < loop \<or> (l = loop \<and> i < k))"
| "passed_before loop k AtEnd = False"

subsection \<open>Sample runs\<close>

definition sample_case :: "int \<Rightarrow> test_case" where
  "sample_case n =
     \<lparr> tc_id = n, tc_tag = js ''t'', tc_source = js ''s'', tc_question = js ''why?'',
       tc_answer = js ''because'', tc_score = 10 \<rparr>"

definition five_cases :: run_config where
  "five_cases =
     \<lparr> testCases = map sample_case [1, 2, 3, 4, 5], loopCount = 1, projectName = js ''p'',
       databaseType = Some (js ''CHROMA''), embeddingModel = Some (js ''m1''),
       rerankerModel = None, work_model = js ''ollama:w'', score_model = js ''ollama:s'' \<rparr>"

definition one_case :: run_config where
  "one_case = five_cases \<lparr> testCases := [sample_case 1] \<rparr>"

definition ok_result :: chat_result where
  "ok_result =
     \<lparr> cr_content = Some (js ''ok''),
       cr_usage = Some \<lparr> total_tokens = 7, prompt_tokens = 4, completion_tokens = 3 \<rparr>,
       cr_duration = None \<rparr>"

definition answer_ok :: chat_outcome where
  "answer_ok = ChatReturns (Some ok_result)"

definition score_eight :: chat_outcome where
  "score_eight =
     ChatReturns (Some \<lparr> cr_content = Some (js ''8''), cr_usage = None, cr_duration = None \<rparr>)"

definition raw_chunk :: "string \<Rightarrow> document" where
  "raw_chunk s = \<lparr> doc_id = js s, doc_content = js s, doc_metadata = [], similarity = Some 0.5 \<rparr>"

text \<open>A world where nothing fails and nobody cancels; the reranker scores the second of the
  four retrieved chunks 0.9 and the first 0.3.\<close>

definition calm :: world where
  "calm =
     \<lparr> aborted = (\<lambda>p. False),
       vector_query = (\<lambda>loop i. Inr [raw_chunk ''c1'', raw_chunk ''c2'', raw_chunk ''c3'', raw_chunk ''c4'']),
       rerank_service = (\<lambda>loop i.
          Inr [\<lparr> rr_index = 1, rr_content = js ''c2'', rr_score = Some 0.9 \<rparr>,
               \<lparr> rr_index = 0, rr_content = js ''c1'', rr_score = Some 0.3 \<rparr>]),
       work_chat = (\<lambda>loop i n. answer_ok),
       score_chat = (\<lambda>loop i n. score_eight),
       db_elapsed = (\<lambda>loop i. 5),
       rerank_elapsed = (\<lambda>loop i. 3),
       penv = no_env \<rparr>"

text \<open>The client cancels between the second and the third test case of the first loop.\<close>

definition cancelled_after_two :: world where
  "cancelled_after_two = calm \<lparr> aborted := (\<lambda>p. \<not> passed_before 1 2 p) \<rparr>"



text \<open>The work model fails twice and then answers; fails three times; the scoring model
  fails three times.\<close>

definition third_time_lucky :: world where
  "third_time_lucky =
     calm \<lparr> work_chat := (\<lambda>loop i n. if n < 2 then ChatThrows (Some (js ''timeout'')) else answer_ok) \<rparr>"

definition work_model_down :: world where
  "work_model_down = calm \<lparr> work_chat := (\<lambda>loop i n. ChatThrows (Some (js ''timeout''))) \<rparr>"

definition score_model_down :: world where
  "score_model_down = calm \<lparr> score_chat := (\<lambda>loop i n. ChatThrows (Some (js ''timeout''))) \<rparr>"

definition start_state :: run_state where
  "start_state = \<lparr> currentTask = 0, totalTokenUsage = 0 \<rparr>"

text \<open>A step that throws nothing but the given message; effects without a terminal frame.\<close>

definition throws_only :: "jsstring \<Rightarrow> 'a step \<Rightarrow> bool" where
  "throws_only c m = (case snd m of Inl message \<Rightarrow> message = c | Inr x \<Rightarrow> True)"

fun no_terminal :: "effect list \<Rightarrow> bool" where
  "no_terminal [] = True"
| "no_terminal (Emit ev # es) = (\<not> terminal ev \<and> no_terminal es)"
| "no_terminal (e # es) = no_terminal es"

section \<open>Properties of the chunker\<close>

lemma rev_dropWhile_snoc:
  assumes "\<not> P y"
  shows "\<exists>zs. rev (dropWhile P (xs @ [y])) = y # zs"
proof (cases "\<forall>x\<in>set xs. P x")
  case True
  then have "dropWhile P (xs @ [y]) = dropWhile P [y]"
    by (simp add: dropWhile_append2)
  then show ?thesis using assms by simp
next
  case False
  then obtain x where "x \<in> set xs" "\<not> P x" by blast
  then have "dropWhile P (xs @ [y]) = dropWhile P xs @ [y]"
    by (rule dropWhile_append1)
  then show ?thesis by simp
qed

lemma dropWhile_trim: "dropWhile is_space (trim s) = trim s"
proof (cases "dropWhile is_space s")
  case Nil
  show ?thesis unfolding trim_def Nil by simp
next
  case (Cons y ys)
  have ny: "\<not> is_space y"
    using Cons by (metis hd_dropWhile list.sel(1) list.distinct(1))
  have t: "trim s = rev (dropWhile is_space (rev ys @ [y]))"
    unfolding trim_def Cons by simp
  obtain zs where "rev (dropWhile is_space (rev ys @ [y])) = y # zs"
    using rev_dropWhile_snoc [of is_space y "rev ys"] ny by blast
  with t have "trim s = y # zs" by simp
  then show ?thesis using ny by simp
qed

lemma trim_trim: "trim (trim s) = trim s"
proof -
  have a: "dropWhile is_space (rev (trim s)) = rev (trim s)"
    by (simp add: trim_def)
  show ?thesis
    unfolding trim_def[of "trim s"] dropWhile_trim a by simp
qed

text \<open>
  C4.  Whatever the input and whatever the recursive splitter returns, every chunk that
  \<open>universalChunker\<close> returns is longer than 10 code units after trimming: strategies 1
  and 2 end with \<open>filter(chunk => chunk.trim().length > 10)\<close>, strategy 3 trims every
  piece and keeps those longer than 10, and trimming twice is trimming once.
\<close>

theorem chunks_longer_than_10:
  "\<forall>c \<in> set (universalChunker splitText content). length (trim c) > 10"
  by (auto simp: universalChunker_def Let_def qa_strategy_def paragraph_strategy_def
      default_strategy_def trim_trim)

theorem chunks_longer_than_10_witness:
  "universalChunker no_split (js ''  hello, world  '') = [js ''hello, world'']
   \<and> length (trim (js ''hello, world'')) > 10"
  using chunks_longer_than_10 [of no_split "js ''  hello, world  ''"]
  by (simp add: universalChunker_def default_strategy_def no_split_def js_def trim_def is_space_def
      paragraphMatches_def DEFAULT_CHUNK_SIZE_def DEFAULT_CHUNK_OVERLAP_def blank_match_def LF_def)

lemma length_split_blank: "length (split_blank k cur s) = Suc (count_blank k s)"
  by (induction k cur s rule: split_blank.induct) (auto split: option.splits)

lemma pieces_separators: "length (split_paragraphs s) = Suc (paragraphMatches s)"
  by (simp add: split_paragraphs_def paragraphMatches_def length_split_blank)

text \<open>
  C5, as the claim states it, fails.  The text \<open>six_paragraphs\<close> has six markers and six
  blank-line-separated paragraphs, so the claim expects the QA strategy; the code counts
  the five separators between them, not the paragraphs, and runs strategy 2.
\<close>

theorem six_paragraphs_not_qa:
  "qaMatches six_paragraphs = 6
   \<and> length (blank_line_separated_paragraphs six_paragraphs) = 6
   \<and> chunker_strategy six_paragraphs = Strategy2"
  by (simp add: six_paragraphs_def js_def LF_def CR_def qa_marker_def
      blank_line_separated_paragraphs_def split_paragraphs_def blank_match_def is_space_def
      trim_def chunker_strategy_def paragraphMatches_def)

text \<open>
  C5, amended.  The selection is a first-match chain over the normalized text \<open>n\<close>:
  strategy 1 (QA) runs exactly when \<open>n\<close> has more than 5 markers and more than 5 blank-line
  separators (matches of \<open>/\n\s*\n/g\<close>), otherwise strategy 2 (paragraphs) runs exactly
  when \<open>n\<close> has at least 3 separators, otherwise strategy 3 runs, which hands \<open>n\<close> to the
  recursive splitter with chunk size 1200 and overlap 200.  The number of separators is one
  less than the number of pieces that splitting on them gives.
\<close>

theorem strategy_selection_by_separators:
  "(chunker_strategy content = Strategy1 \<longleftrightarrow>
      qaMatches (replace_crlf content) > 5 \<and> paragraphMatches (replace_crlf content) > 5)
   \<and> (chunker_strategy content = Strategy2 \<longleftrightarrow>
      \<not> (qaMatches (replace_crlf content) > 5 \<and> paragraphMatches (replace_crlf content) > 5)
      \<and> paragraphMatches (replace_crlf content) \<ge> 3)
   \<and> (chunker_strategy content = Strategy3 \<longleftrightarrow> paragraphMatches (replace_crlf content) < 3)
   \<and> length (split_paragraphs (replace_crlf content)) = Suc (paragraphMatches (replace_crlf content))
   \<and> universalChunker splitText content =
       (case chunker_strategy content of
          Strategy1 \<Rightarrow> qa_strategy splitText (replace_crlf content)
        | Strategy2 \<Rightarrow> paragraph_strategy splitText (replace_crlf content)
        | Strategy3 \<Rightarrow>
            filter (\<lambda>chunk. chunk \<noteq> [] \<and> length chunk > 10)
              (map trim (splitText 1200 200 (replace_crlf content))))"
  by (auto simp: chunker_strategy_def universalChunker_def Let_def pieces_separators
      default_strategy_def DEFAULT_CHUNK_SIZE_def DEFAULT_CHUNK_OVERLAP_def)

theorem strategy_selection_by_separators_witness:
  "chunker_strategy six_paragraphs = Strategy2
   \<and> \<not> (qaMatches (replace_crlf six_paragraphs) > 5 \<and> paragraphMatches (replace_crlf six_paragraphs) > 5)
   \<and> paragraphMatches (replace_crlf six_paragraphs) \<ge> 3
   \<and> universalChunker no_split six_paragraphs = paragraph_strategy no_split (replace_crlf six_paragraphs)"
  using strategy_selection_by_separators [of six_paragraphs no_split]
  by (simp add: six_paragraphs_def js_def LF_def CR_def qa_marker_def
      blank_match_def is_space_def chunker_strategy_def paragraphMatches_def)

lemma CR_neq_LF: "CR \<noteq> LF"
  by (simp add: CR_def LF_def)

lemma crlf_version_head: "crlf_version s = d # ds \<Longrightarrow> d \<noteq> LF"
  by (cases s) (auto simp: crlf_version_def CR_neq_LF split: if_splits)

lemma crlf_version_Cons:
  "crlf_version (c # cs) = (if c = LF then CR # LF # crlf_version cs else c # crlf_version cs)"
  by (simp add: crlf_version_def)

lemma replace_crlf_crlf_version: "replace_crlf (crlf_version s) = s"
proof (induction s)
  case Nil
  show ?case by (simp add: crlf_version_def)
next
  case (Cons c cs)
  show ?case
  proof (cases "c = LF")
    case True
    then show ?thesis using Cons by (simp add: crlf_version_Cons)
  next
    case False
    show ?thesis
    proof (cases "crlf_version cs")
      case Nil
      then show ?thesis using Cons False by (simp add: crlf_version_Cons)
    next
      case (Cons d ds)
      then have "d \<noteq> LF" by (rule crlf_version_head)
      then show ?thesis
        using Cons.IH False Cons by (simp add: crlf_version_Cons)
    qed
  qed
qed

lemma replace_crlf_id: "\<not> has_crlf s \<Longrightarrow> replace_crlf s = s"
  by (induction s rule: replace_crlf.induct) auto

text \<open>
  C9.  The first step of \<open>universalChunker\<close> replaces every CR LF by LF, before the
  markers and separators are counted and before any splitting.  So a text with LF line
  endings and its CRLF version give the same list of chunks, with any recursive splitter.
\<close>

theorem crlf_lf_same_chunks:
  "\<not> has_crlf text \<Longrightarrow>
   replace_crlf (crlf_version text) = replace_crlf text
   \<and> universalChunker splitText (crlf_version text) = universalChunker splitText text"
  by (simp add: universalChunker_def replace_crlf_crlf_version replace_crlf_id)

theorem crlf_lf_same_chunks_witness:
  "\<not> has_crlf two_lines
   \<and> crlf_version two_lines = js ''hello, world'' @ [CR, LF] @ js ''second line here''
   \<and> universalChunker no_split (crlf_version two_lines) = [two_lines]
   \<and> universalChunker no_split two_lines = [two_lines]"
  using crlf_lf_same_chunks [of two_lines no_split]
  by (simp add: two_lines_def js_def LF_def CR_def crlf_version_def universalChunker_def
      default_strategy_def no_split_def trim_def is_space_def paragraphMatches_def
      blank_match_def DEFAULT_CHUNK_SIZE_def DEFAULT_CHUNK_OVERLAP_def)

section \<open>Properties of the similarity scores\<close>

lemma entry_or_Some: "at_index ds i = Some (Some d) \<Longrightarrow> entry_or (Some ds) i dflt = d"
  by (simp add: entry_or_def)

lemma chroma_documents_nth:
  assumes "ids0 results = Some ids" and "i < length ids"
  shows "chroma_documents results ! i = chroma_document results ids i"
  using assms by (simp add: chroma_documents_def)

lemma pg_queryDocuments_rows:
  assumes "doc \<in> set (pg_queryDocuments cosine_distance id_text rows (Some queryVector) topK)"
  shows "\<exists>row\<in>set rows. doc = pg_row cosine_distance id_text queryVector row"
proof -
  from assms have "doc \<in> set (sort_key (\<lambda>d. - similarity_of d)
      (map (pg_row cosine_distance id_text queryVector) rows))"
    unfolding pg_queryDocuments_def by (auto dest: in_set_takeD)
  then show ?thesis by auto
qed

text \<open>
  C6.  For one and the same cosine distance \<open>d\<close>, the Chroma backend (which reads it from
  \<open>results.distances[0][i]\<close>) and the Postgres backend (where the operator \<open><=>\<close> computes
  it) both report the similarity \<open>1 - d\<close>: 1 for the distance 0, -1 for the distance 2, and
  a value between -1 and 1 for a distance between 0 and 2.  This is the similarity of the
  \<open>i\<close>-th document that \<open>ChromaDB.queryDocuments\<close> returns, and every document that
  \<open>PostgresDB.queryDocuments\<close> returns carries one minus the distance of one of the rows.
\<close>

theorem similarity_is_one_minus_distance:
  assumes "distances0 results = Some ds" and "at_index ds i = Some (Some d)"
    and "cosine_distance (embedding row) queryVector = d"
  shows "similarity (chroma_document results ids i) = Some (1 - d)
       \<and> similarity (pg_row cosine_distance id_text queryVector row) = Some (1 - d)
       \<and> (d = 0 \<longrightarrow> similarity (chroma_document results ids i) = Some 1
                  \<and> similarity (pg_row cosine_distance id_text queryVector row) = Some 1)
       \<and> (d = 2 \<longrightarrow> similarity (chroma_document results ids i) = Some (- 1)
                  \<and> similarity (pg_row cosine_distance id_text queryVector row) = Some (- 1))
       \<and> (0 \<le> d \<and> d \<le> 2 \<longrightarrow> - 1 \<le> 1 - d \<and> 1 - d \<le> 1)
       \<and> (ids0 results = Some ids \<and> i < length ids \<longrightarrow>
            similarity (chroma_documents results ! i) = Some (1 - d))
       \<and> (\<forall>doc\<in>set (pg_queryDocuments cosine_distance id_text rows (Some queryVector) topK).
            \<exists>r\<in>set rows. similarity doc = Some (1 - cosine_distance (embedding r) queryVector))"
proof -
  have a: "similarity (chroma_document results ids i) = Some (1 - d)"
    using assms by (simp add: chroma_document_def entry_or_def Let_def)
  have b: "similarity (pg_row cosine_distance id_text queryVector row) = Some (1 - d)"
    using assms by (simp add: pg_row_def pg_similarity_def)
  have c: "ids0 results = Some ids \<and> i < length ids \<longrightarrow>
            similarity (chroma_documents results ! i) = Some (1 - d)"
    using a by (simp add: chroma_documents_nth)
  have e: "\<forall>doc\<in>set (pg_queryDocuments cosine_distance id_text rows (Some queryVector) topK).
            \<exists>r\<in>set rows. similarity doc = Some (1 - cosine_distance (embedding r) queryVector)"
  proof
    fix doc
    assume "doc \<in> set (pg_queryDocuments cosine_distance id_text rows (Some queryVector) topK)"
    then obtain r where "r \<in> set rows" and "doc = pg_row cosine_distance id_text queryVector r"
      using pg_queryDocuments_rows by blast
    then show "\<exists>r\<in>set rows. similarity doc = Some (1 - cosine_distance (embedding r) queryVector)"
      by (auto simp add: pg_row_def pg_similarity_def)
  qed
  show ?thesis using a b c e by simp
qed

theorem similarity_is_one_minus_distance_witness:
  "distances0 sample_results = Some [Some 0, Some 2]
   \<and> at_index [Some 0, Some (2::real)] 0 = Some (Some 0)
   \<and> at_index [Some 0, Some (2::real)] 1 = Some (Some 2)
   \<and> sample_distance (embedding near_row) [] = 0
   \<and> sample_distance (embedding far_row) [] = 2
   \<and> similarity (chroma_document sample_results [js ''a'', js ''b''] 0) = Some 1
   \<and> similarity (pg_row sample_distance (\<lambda>n. []) [] near_row) = Some 1
   \<and> similarity (chroma_document sample_results [js ''a'', js ''b''] 1) = Some (- 1)
   \<and> similarity (pg_row sample_distance (\<lambda>n. []) [] far_row) = Some (- 1)
   \<and> map similarity (chroma_documents sample_results) = [Some 1, Some (- 1)]
   \<and> map similarity (pg_queryDocuments sample_distance (\<lambda>n. []) [far_row, near_row] (Some []) 2)
       = [Some 1, Some (- 1)]"
proof -
  have d: "distances0 sample_results = Some [Some 0, Some 2]"
    by (simp add: sample_results_def)
  have i0: "at_index [Some 0, Some (2::real)] 0 = Some (Some 0)"
    and i1: "at_index [Some 0, Some (2::real)] 1 = Some (Some 2)"
    by (simp_all add: at_index_def)
  have n: "sample_distance (embedding near_row) [] = 0"
    and f: "sample_distance (embedding far_row) [] = 2"
    by (simp_all add: sample_distance_def near_row_def far_row_def)
  have c: "map similarity (chroma_documents sample_results) = [Some 1, Some (- 1)]"
    by (simp add: chroma_documents_def chroma_document_def sample_results_def entry_or_def
        at_index_def Let_def upt_rec [of 0] upt_rec [of 1] upt_rec [of "Suc 0"])
  have p: "map similarity (pg_queryDocuments sample_distance (\<lambda>n. []) [far_row, near_row] (Some []) 2)
       = [Some 1, Some (- 1)]"
    by (simp add: pg_queryDocuments_def pg_row_def pg_similarity_def similarity_of_def
        sample_distance_def near_row_def far_row_def)
  show ?thesis
    using d i0 i1 n f c p
      similarity_is_one_minus_distance [where cosine_distance = sample_distance and row = near_row
        and queryVector = "[]" and ids = "[js ''a'', js ''b'']" and id_text = "\<lambda>n. []", OF d i0 n]
      similarity_is_one_minus_distance [where cosine_distance = sample_distance and row = far_row
        and queryVector = "[]" and ids = "[js ''a'', js ''b'']" and id_text = "\<lambda>n. []", OF d i1 f]
    by simp
qed

section \<open>Properties of the factory\<close>

lemma map_of_append_new: "map_of xs k = None \<Longrightarrow> map_of (xs @ [(k, v)]) k = Some v"
  by (simp add: map_of_append map_add_def)











section \<open>Properties of PostgresDB.seed\<close>

lemma seed_chunks_ok:
  "seed_chunks env fid cs db = (Inr u, db') \<Longrightarrow> fid \<in> kf_id ` set (knowledge_files db) \<Longrightarrow>
   knowledge_files db' = knowledge_files db \<and> files_id_seq db' = files_id_seq db
   \<and> (\<exists>rows. knowledge_chunks db' = knowledge_chunks db @ rows
         \<and> map (\<lambda>c. (file_id c, chunk_text c)) rows = map (\<lambda>c. (fid, c)) cs)"
proof (induction cs arbitrary: db)
  case Nil
  then show ?case by simp
next
  case (Cons chunk chunks)
  from Cons.prems(1) obtain vec where vec: "embed_document env chunk = Inr vec"
    by (auto split: sum.splits)
  let ?db1 = "snd (insert_knowledge_chunk fid chunk vec db)"
  from Cons.prems vec have ins: "insert_knowledge_chunk fid chunk vec db = (Inr (), ?db1)"
    and rest: "seed_chunks env fid chunks ?db1 = (Inr u, db')"
    by (auto split: sum.splits prod.splits)
  from ins Cons.prems(2) have db1: "?db1 = db \<lparr> chunks_id_seq := Suc (chunks_id_seq db),
      knowledge_chunks := knowledge_chunks db
         @ [\<lparr> chunk_id = Suc (chunks_id_seq db), file_id = fid, chunk_text = chunk, embedding = vec \<rparr>] \<rparr>"
    by (auto simp: insert_knowledge_chunk_def Let_def split: if_splits)
  have "fid \<in> kf_id ` set (knowledge_files ?db1)"
    using Cons.prems(2) by (subst db1) simp
  from Cons.IH [OF rest this] obtain rows where
    r: "knowledge_files db' = knowledge_files ?db1" "files_id_seq db' = files_id_seq ?db1"
       "knowledge_chunks db' = knowledge_chunks ?db1 @ rows"
       "map (\<lambda>c. (file_id c, chunk_text c)) rows = map (\<lambda>c. (fid, c)) chunks"
    by blast
  have f1: "knowledge_files ?db1 = knowledge_files db" "files_id_seq ?db1 = files_id_seq db"
    "knowledge_chunks ?db1 = knowledge_chunks db
         @ [\<lparr> chunk_id = Suc (chunks_id_seq db), file_id = fid, chunk_text = chunk, embedding = vec \<rparr>]"
    by (subst db1, simp)+
  show ?case
    using r f1
    by (intro conjI exI [of _ "\<lparr> chunk_id = Suc (chunks_id_seq db), file_id = fid, chunk_text = chunk, embedding = vec \<rparr> # rows"]) simp_all
qed

lemma owner_name_old:
  "fid \<in> kf_id ` set fs \<Longrightarrow>
   owner_name (db \<lparr> knowledge_files := fs @ [g] \<rparr>) fid = owner_name (db \<lparr> knowledge_files := fs \<rparr>) fid"
proof -
  assume "fid \<in> kf_id ` set fs"
  then have "filter (\<lambda>f. kf_id f = fid) fs \<noteq> []"
    by (auto simp: filter_empty_conv)
  then obtain x xs where "filter (\<lambda>f. kf_id f = fid) fs = x # xs"
    by (cases "filter (\<lambda>f. kf_id f = fid) fs") auto
  then show ?thesis by (simp add: owner_name_def)
qed

lemma owner_name_new:
  "\<forall>f \<in> set fs. kf_id f \<noteq> kf_id g \<Longrightarrow>
   owner_name (db \<lparr> knowledge_files := fs @ [g] \<rparr>) (kf_id g) = file_name g"
proof -
  assume "\<forall>f \<in> set fs. kf_id f \<noteq> kf_id g"
  then have "filter (\<lambda>f. kf_id f = kf_id g) fs = []"
    by (auto simp: filter_empty_conv)
  then show ?thesis by (simp add: owner_name_def)
qed

lemma owner_name_cong:
  "knowledge_files db = knowledge_files db' \<Longrightarrow> owner_name db = owner_name db'"
  by (auto simp: owner_name_def fun_eq_iff)

lemma seed_files_ok:
  "store_ok db \<Longrightarrow> seed_files env el dir names db = (Inr u, db') \<Longrightarrow>
   store_ok db'
   \<and> stored_files db' = stored_files db @ expected_files env el dir names
   \<and> stored_chunks db' = stored_chunks db @ expected_chunks env el dir names"
proof (induction names arbitrary: db)
  case Nil
  then show ?case by (simp add: expected_files_def expected_chunks_def)
next
  case (Cons fileName files)
  show ?case
  proof (cases "el fileName")
    case False
    then show ?thesis
      using Cons by (simp add: expected_files_def expected_chunks_def)
  next
    case True
    from Cons.prems(2) True obtain fileText where
      rd: "fs_readFile env (path_join env dir fileName) = Inr fileText"
      by (auto split: sum.splits)
    let ?g = "\<lparr> kf_id = Suc (files_id_seq db), file_name = fileName, file_content = fileText \<rparr>"
    let ?db1 = "db \<lparr> files_id_seq := Suc (files_id_seq db), knowledge_files := knowledge_files db @ [?g] \<rparr>"
    let ?chunks = "universalChunker (recursive_splitter env) fileText"
    from Cons.prems(2) True rd have
      ins: "insert_knowledge_file fileName fileText db = (Inr (Suc (files_id_seq db)), ?db1)"
      by (auto simp: insert_knowledge_file_def Let_def split: sum.splits prod.splits if_splits)
    let ?db2 = "snd (seed_chunks env (Suc (files_id_seq db)) ?chunks ?db1)"
    from Cons.prems(2) True rd ins have
      sc: "seed_chunks env (Suc (files_id_seq db)) ?chunks ?db1 = (Inr (), ?db2)"
      and rest: "seed_files env el dir files ?db2 = (Inr u, db')"
      by (auto split: sum.splits prod.splits)
    have "Suc (files_id_seq db) \<in> kf_id ` set (knowledge_files ?db1)"
      by simp
    from seed_chunks_ok [OF sc this] obtain rows where
      r: "knowledge_files ?db2 = knowledge_files db @ [?g]"
         "files_id_seq ?db2 = Suc (files_id_seq db)"
         "knowledge_chunks ?db2 = knowledge_chunks db @ rows"
         "map (\<lambda>c. (file_id c, chunk_text c)) rows = map (\<lambda>c. (Suc (files_id_seq db), c)) ?chunks"
      by auto
    have rows_fid: "\<forall>c \<in> set rows. file_id c = Suc (files_id_seq db)"
    proof
      fix c assume "c \<in> set rows"
      then have "(file_id c, chunk_text c) \<in> set (map (\<lambda>c. (file_id c, chunk_text c)) rows)"
        by force
      then show "file_id c = Suc (files_id_seq db)"
        unfolding r(4) by auto
    qed
    have fresh: "\<forall>f \<in> set (knowledge_files db). kf_id f \<noteq> kf_id ?g"
      using Cons.prems(1) by (auto simp: store_ok_def)
    have ok2: "store_ok ?db2"
      using Cons.prems(1) r rows_fid by (auto simp: store_ok_def)
    have own: "owner_name ?db2 = owner_name (db \<lparr> knowledge_files := knowledge_files db @ [?g] \<rparr>)"
      by (rule owner_name_cong) (simp add: r)
    have old: "map (\<lambda>c. (owner_name ?db2 (file_id c), chunk_text c)) (knowledge_chunks db)
               = stored_chunks db"
    proof -
      have "owner_name ?db2 (file_id c) = owner_name db (file_id c)"
        if "c \<in> set (knowledge_chunks db)" for c
      proof -
        have "file_id c \<in> kf_id ` set (knowledge_files db)"
          using Cons.prems(1) that by (simp add: store_ok_def)
        from owner_name_old [where db = db and g = ?g, OF this] show ?thesis
          by (simp add: own)
      qed
      then show ?thesis by (simp add: stored_chunks_def)
    qed
    have new: "map (\<lambda>c. (owner_name ?db2 (file_id c), chunk_text c)) rows
               = map (\<lambda>c. (fileName, c)) ?chunks"
    proof -
      have n: "owner_name ?db2 (Suc (files_id_seq db)) = fileName"
        using owner_name_new [where db = db, OF fresh] by (simp add: own)
      have "map (\<lambda>c. (owner_name ?db2 (file_id c), chunk_text c)) rows
            = map (\<lambda>p. (owner_name ?db2 (fst p), snd p)) (map (\<lambda>c. (file_id c, chunk_text c)) rows)"
        by simp
      also have "\<dots> = map (\<lambda>c. (fileName, c)) ?chunks"
        unfolding r(4) by (simp add: n)
      finally show ?thesis .
    qed
    have sf2: "stored_files ?db2 = stored_files db @ [(fileName, fileText)]"
      by (simp add: stored_files_def r)
    have sc2: "stored_chunks ?db2 = stored_chunks db @ map (\<lambda>c. (fileName, c)) ?chunks"
      using old new by (simp add: stored_chunks_def [of ?db2] r(3))
    from Cons.IH [OF ok2 rest] have
      ih: "store_ok db'"
          "stored_files db' = stored_files ?db2 @ expected_files env el dir files"
          "stored_chunks db' = stored_chunks ?db2 @ expected_chunks env el dir files"
      by auto
    show ?thesis
      using ih True rd
      by (simp add: sf2 sc2 expected_files_def expected_chunks_def text_of_def)
  qed
qed

lemma store_ok_truncate: "store_ok (truncate_knowledge_files_cascade db)"
  by (simp add: store_ok_def truncate_knowledge_files_cascade_def)

lemma seed_with_replaces:
  assumes "pool_connect env = None"
  shows "seed_with el env dir db = seed_with el env dir (truncate_knowledge_files_cascade db)
    \<and> (\<forall>db'. seed_with el env dir db = (Inr (), db') \<longrightarrow>
         (\<exists>files. fs_readdir env dir = Inr files
            \<and> stored_files db' = expected_files env el dir files
            \<and> stored_chunks db' = expected_chunks env el dir files))"
proof -
  have a: "seed_with el env dir db = seed_with el env dir (truncate_knowledge_files_cascade db)"
    using assms by (simp add: seed_with_def truncate_knowledge_files_cascade_def)
  have b: "\<exists>files. fs_readdir env dir = Inr files
            \<and> stored_files db' = expected_files env el dir files
            \<and> stored_chunks db' = expected_chunks env el dir files"
    if "seed_with el env dir db = (Inr (), db')" for db'
  proof -
    from that assms obtain files where
      f: "fs_readdir env dir = Inr files"
      and s: "seed_files env el dir files (truncate_knowledge_files_cascade db) = (Inr (), db')"
      by (auto simp: seed_with_def Let_def split: sum.splits)
    from seed_files_ok [OF store_ok_truncate s] f show ?thesis
      by (simp add: stored_files_def stored_chunks_def truncate_knowledge_files_cascade_def)
  qed
  show ?thesis using a b by blast
qed

text \<open>
  C10.  Once the connection is there, \<open>seed\<close> begins with the \<open>TRUNCATE\<close>: its outcome and
  the store it leaves are those of seeding the emptied store, whatever was stored before.
  When it completes without an error, the files of the store are exactly the eligible
  files of the directory (extension \<open>.md\<close> or \<open>.txt\<close>; only \<open>.txt\<close> in the older copy of
  the file) with their texts, and the chunks are exactly the chunks that \<open>universalChunker\<close>
  makes of these texts, each owned by its file, in order.
\<close>

theorem seed_is_full_replace:
  assumes "pool_connect env = None"
  shows "PostgresDB_seed env dir db = PostgresDB_seed env dir (truncate_knowledge_files_cascade db)
    \<and> (\<forall>db'. PostgresDB_seed env dir db = (Inr (), db') \<longrightarrow>
         (\<exists>files. fs_readdir env dir = Inr files
            \<and> stored_files db' = expected_files env (md_or_txt env) dir files
            \<and> stored_chunks db' = expected_chunks env (md_or_txt env) dir files))
    \<and> PostgresDB_seed_txt env dir db
          = PostgresDB_seed_txt env dir (truncate_knowledge_files_cascade db)
    \<and> (\<forall>db'. PostgresDB_seed_txt env dir db = (Inr (), db') \<longrightarrow>
         (\<exists>files. fs_readdir env dir = Inr files
            \<and> stored_files db' = expected_files env (txt_only env) dir files
            \<and> stored_chunks db' = expected_chunks env (txt_only env) dir files))"
  unfolding PostgresDB_seed_def PostgresDB_seed_txt_def
  using seed_with_replaces [OF assms, of "md_or_txt env" dir db]
    seed_with_replaces [OF assms, of "txt_only env" dir db]
  by blast

theorem seed_is_full_replace_witness:
  "pool_connect sample_env = None
   \<and> PostgresDB_seed sample_env (js ''kb'') old_store
       = PostgresDB_seed sample_env (js ''kb'') (truncate_knowledge_files_cascade old_store)
   \<and> fst (PostgresDB_seed sample_env (js ''kb'') old_store) = Inr ()
   \<and> stored_files (snd (PostgresDB_seed sample_env (js ''kb'') old_store))
       = [(js ''notes.md'', js ''alpha beta gamma delta'')]
   \<and> stored_chunks (snd (PostgresDB_seed sample_env (js ''kb'') old_store))
       = [(js ''notes.md'', js ''alpha beta gamma delta'')]"
proof -
  have c: "pool_connect sample_env = None"
    by (simp add: sample_env_def)
  have e: "fst (PostgresDB_seed sample_env (js ''kb'') old_store) = Inr ()
     \<and> stored_files (snd (PostgresDB_seed sample_env (js ''kb'') old_store))
         = [(js ''notes.md'', js ''alpha beta gamma delta'')]
     \<and> stored_chunks (snd (PostgresDB_seed sample_env (js ''kb'') old_store))
         = [(js ''notes.md'', js ''alpha beta gamma delta'')]"
    by code_simp
  show ?thesis
    using c e seed_is_full_replace [OF c, of "js ''kb''" old_store]
    by simp
qed

section \<open>Properties of the orchestrator\<close>

subsection \<open>Sequencing\<close>

lemma and_then_Inr: "and_then (es, Inr x) f = (es @ fst (f x), snd (f x))"
  by (simp add: and_then_def split: prod.splits)

lemma and_then_Inl: "and_then (es, Inl e) f = (es, Inl e)"
  by (simp add: and_then_def)

lemma and_then_ret: "and_then (ret x) f = f x"
  by (simp add: ret_def and_then_Inr)

lemma and_then_perform: "and_then (perform e) f = (e # fst (f ()), snd (f ()))"
  by (simp add: perform_def and_then_Inr)

lemma and_then_throw: "and_then (throw e) f = ([], Inl e)"
  by (simp add: throw_def and_then_Inl)

lemmas and_then_simps = and_then_Inr and_then_Inl and_then_ret and_then_perform and_then_throw

lemma and_then_InrE:
  assumes "and_then m f = (es, Inr y)"
  obtains es1 x es2 where "m = (es1, Inr x)" "f x = (es2, Inr y)" "es = es1 @ es2"
proof (cases m)
  case (Pair es1 r)
  show ?thesis
  proof (cases r)
    case (Inl e)
    with Pair assms show ?thesis by (simp add: and_then_simps)
  next
    case (Inr x)
    with Pair assms have "es = es1 @ fst (f x)" "snd (f x) = Inr y" by (simp_all add: and_then_simps)
    then show ?thesis using that [of es1 x "fst (f x)"] Pair Inr by (simp add: prod_eq_iff)
  qed
qed

lemma and_then_InlE:
  assumes "and_then m f = (es, Inl e)"
  obtains "m = (es, Inl e)"
  | es1 x es2 where "m = (es1, Inr x)" "f x = (es2, Inl e)" "es = es1 @ es2"
proof (cases m)
  case (Pair es1 r)
  show ?thesis
  proof (cases r)
    case (Inl e')
    with Pair assms show ?thesis using that(1) by (simp add: and_then_simps)
  next
    case (Inr x)
    with Pair assms have "es = es1 @ fst (f x)" "snd (f x) = Inl e" by (simp_all add: and_then_simps)
    then show ?thesis using that(2) [of es1 x "fst (f x)"] Pair Inr by (simp add: prod_eq_iff)
  qed
qed

lemma completes_ret [simp]: "completes (ret x)"
  by (simp add: completes_def ret_def)

lemma completes_perform [simp]: "completes (perform e)"
  by (simp add: completes_def perform_def)

lemma completes_Inr [simp]: "completes (es, Inr x)"
  by (simp add: completes_def)

lemma completesE:
  assumes "completes m" obtains es x where "m = (es, Inr x)"
  using assms by (cases m) (auto simp: completes_def split: sum.splits)

lemma completes_and_then:
  assumes "completes m" and "\<And>x. completes (f x)"
  shows "completes (and_then m f)"
proof -
  from assms(1) obtain es x where m: "m = (es, Inr x)" by (rule completesE)
  from assms(2) [of x] show ?thesis by (simp add: m completes_def and_then_simps)
qed

lemma throws_only_ret [simp]: "throws_only c (ret x)"
  by (simp add: throws_only_def ret_def)

lemma throws_only_perform [simp]: "throws_only c (perform e)"
  by (simp add: throws_only_def perform_def)

lemma throws_only_Inr [simp]: "throws_only c (es, Inr x)"
  by (simp add: throws_only_def)

lemma throws_only_throw [simp]: "throws_only c (throw c)"
  by (simp add: throws_only_def throw_def)

lemma throws_only_and_then:
  assumes "throws_only c m" and "\<And>x. throws_only c (f x)"
  shows "throws_only c (and_then m f)"
proof (cases m)
  case (Pair es r)
  show ?thesis
  proof (cases r)
    case (Inl e)
    with Pair assms(1) show ?thesis by (simp add: throws_only_def and_then_simps)
  next
    case (Inr x)
    with Pair assms(2) [of x] show ?thesis by (simp add: throws_only_def and_then_simps)
  qed
qed

lemma no_terminal_append [simp]: "no_terminal (xs @ ys) \<longleftrightarrow> no_terminal xs \<and> no_terminal ys"
  by (induction xs rule: no_terminal.induct) auto

lemma no_terminal_and_then:
  assumes "no_terminal (fst m)" and "\<And>x. no_terminal (fst (f x))"
  shows "no_terminal (fst (and_then m f))"
proof (cases m)
  case (Pair es r)
  show ?thesis
  proof (cases r)
    case (Inl e)
    with Pair assms(1) show ?thesis by (simp add: and_then_simps)
  next
    case (Inr x)
    with Pair assms(1) assms(2) [of x] show ?thesis by (simp add: and_then_simps)
  qed
qed

lemma work_prompts_append [simp]: "work_prompts (xs @ ys) = work_prompts xs @ work_prompts ys"
  by (induction xs rule: work_prompts.induct) auto

lemma work_prompts_and_then:
  assumes "work_prompts (fst m) = []" and "\<And>x. work_prompts (fst (f x)) = []"
  shows "work_prompts (fst (and_then m f)) = []"
proof (cases m)
  case (Pair es r)
  show ?thesis
  proof (cases r)
    case (Inl e)
    with Pair assms(1) show ?thesis by (simp add: and_then_simps)
  next
    case (Inr x)
    with Pair assms(1) assms(2) [of x] show ?thesis by (simp add: and_then_simps)
  qed
qed

subsection \<open>onProgress\<close>

lemma onProgress_calm: "\<not> aborted w p \<Longrightarrow> onProgress w p ev = perform (Emit ev)"
  by (simp add: onProgress_def)

lemma onProgress_aborted: "aborted w p \<Longrightarrow> onProgress w p ev = throw cancelled_message"
  by (simp add: onProgress_def)

lemma throw_if_cancelled_calm: "\<not> aborted w p \<Longrightarrow> throw_if_cancelled w p = ret ()"
  by (simp add: throw_if_cancelled_def)

lemma throws_only_onProgress [simp]: "throws_only cancelled_message (onProgress w p ev)"
  by (simp add: onProgress_def)

lemma throws_only_check [simp]: "throws_only cancelled_message (throw_if_cancelled w p)"
  by (simp add: throw_if_cancelled_def)

lemma no_terminal_onProgress [simp]: "\<not> terminal ev \<Longrightarrow> no_terminal (fst (onProgress w p ev))"
  by (simp add: onProgress_def throw_def perform_def)

lemma no_terminal_check [simp]: "no_terminal (fst (throw_if_cancelled w p))"
  by (simp add: throw_if_cancelled_def throw_def ret_def)

lemma work_prompts_onProgress [simp]: "work_prompts (fst (onProgress w p ev)) = []"
  by (simp add: onProgress_def throw_def perform_def)

lemma work_prompts_check [simp]: "work_prompts (fst (throw_if_cancelled w p)) = []"
  by (simp add: throw_if_cancelled_def throw_def ret_def)

lemma work_prompts_onProgressD: "onProgress w p ev = (es, r) \<Longrightarrow> work_prompts es = []"
  by (metis work_prompts_onProgress fst_conv)

lemma work_prompts_checkD: "throw_if_cancelled w p = (es, r) \<Longrightarrow> work_prompts es = []"
  by (metis work_prompts_check fst_conv)

lemma completes_onProgress: "\<not> aborted w p \<Longrightarrow> completes (onProgress w p ev)"
  by (simp add: onProgress_calm)

lemma completes_check: "\<not> aborted w p \<Longrightarrow> completes (throw_if_cancelled w p)"
  by (simp add: throw_if_cancelled_calm)

subsection \<open>safeModelCall\<close>

lemma attempt_ok:
  assumes "\<not> attempt_failed c"
  obtains res body where "c = ChatReturns (Some res)" "cr_content res = Some body"
  using assms by (cases c rule: attempt_failed.cases) auto

lemma smc_ok:
  "chat i = ChatReturns (Some res) \<Longrightarrow> cr_content res = Some text \<Longrightarrow> i \<le> retries \<Longrightarrow>
   safeModelCall_from chat m msgs retries i =
     ((if i > 0 then [Delay 2000] else []) @ [HandleChat m msgs],
      \<lparr> success = True, sc_content = Some text, sc_tokenUsage = cr_usage res,
        sc_durationUsage = cr_duration res, sc_error = None \<rparr>)"
  by (subst safeModelCall_from.simps) (simp add: Let_def)

lemma smc_failed_more:
  "attempt_failed (chat i) \<Longrightarrow> i < retries \<Longrightarrow>
   safeModelCall_from chat m msgs retries i =
     ((if i > 0 then [Delay 2000] else []) @ [HandleChat m msgs]
        @ fst (safeModelCall_from chat m msgs retries (Suc i)),
      snd (safeModelCall_from chat m msgs retries (Suc i)))"
  by (subst safeModelCall_from.simps, cases "chat i" rule: attempt_failed.cases)
    (auto simp: Let_def split: prod.splits)

lemma js_or_default: "d \<noteq> [] \<Longrightarrow> the (js_or a (Some d)) \<noteq> []"
  by (auto simp: js_or_def split: option.splits)

lemma smc_failed_last:
  "attempt_failed (chat i) \<Longrightarrow> i = retries \<Longrightarrow>
   \<exists>message. message \<noteq> [] \<and>
     safeModelCall_from chat m msgs retries i =
       ((if i > 0 then [Delay 2000] else []) @ [HandleChat m msgs],
        \<lparr> success = False, sc_content = None, sc_tokenUsage = None,
          sc_durationUsage = None, sc_error = Some message \<rparr>)"
  by (subst safeModelCall_from.simps, cases "chat i" rule: attempt_failed.cases)
    (auto simp: Let_def js_def intro!: js_or_default)

lemma safeModelCall_third_time:
  assumes "attempt_failed (chat 0)" "attempt_failed (chat 1)"
    and "chat 2 = ChatReturns (Some res)" "cr_content res = Some text"
  shows "safeModelCall chat m msgs =
     ([HandleChat m msgs, Delay 2000, HandleChat m msgs, Delay 2000, HandleChat m msgs],
      \<lparr> success = True, sc_content = Some text, sc_tokenUsage = cr_usage res,
        sc_durationUsage = cr_duration res, sc_error = None \<rparr>)"
proof -
  have 2: "safeModelCall_from chat m msgs 2 2 =
     ([Delay 2000, HandleChat m msgs],
      \<lparr> success = True, sc_content = Some text, sc_tokenUsage = cr_usage res,
        sc_durationUsage = cr_duration res, sc_error = None \<rparr>)"
    using smc_ok [where chat = chat and i = 2 and retries = 2 and m = m and msgs = msgs, OF assms(3,4)] by simp
  have 1: "safeModelCall_from chat m msgs 2 1 =
     ([Delay 2000, HandleChat m msgs] @ fst (safeModelCall_from chat m msgs 2 2),
      snd (safeModelCall_from chat m msgs 2 2))"
    using smc_failed_more [where chat = chat and i = 1 and retries = 2 and m = m and msgs = msgs, OF assms(2)] by (simp add: numeral_2_eq_2)
  have 0: "safeModelCall_from chat m msgs 2 0 =
     ([HandleChat m msgs] @ fst (safeModelCall_from chat m msgs 2 1),
      snd (safeModelCall_from chat m msgs 2 1))"
    using smc_failed_more [where chat = chat and i = 0 and retries = 2 and m = m and msgs = msgs, OF assms(1)] by simp
  show ?thesis
    unfolding safeModelCall_def 0 1 2 by simp
qed

lemma safeModelCall_all_fail:
  assumes "attempt_failed (chat 0)" "attempt_failed (chat 1)" "attempt_failed (chat 2)"
  shows "\<exists>message. message \<noteq> [] \<and> safeModelCall chat m msgs =
     ([HandleChat m msgs, Delay 2000, HandleChat m msgs, Delay 2000, HandleChat m msgs],
      \<lparr> success = False, sc_content = None, sc_tokenUsage = None,
        sc_durationUsage = None, sc_error = Some message \<rparr>)"
proof -
  from smc_failed_last [where chat = chat and i = 2 and retries = 2 and m = m and msgs = msgs, OF assms(3)] obtain message where
    2: "message \<noteq> []" "safeModelCall_from chat m msgs 2 2 =
     ([Delay 2000, HandleChat m msgs],
      \<lparr> success = False, sc_content = None, sc_tokenUsage = None,
        sc_durationUsage = None, sc_error = Some message \<rparr>)"
    by auto
  have 1: "safeModelCall_from chat m msgs 2 1 =
     ([Delay 2000, HandleChat m msgs] @ fst (safeModelCall_from chat m msgs 2 2),
      snd (safeModelCall_from chat m msgs 2 2))"
    using smc_failed_more [where chat = chat and i = 1 and retries = 2 and m = m and msgs = msgs, OF assms(2)] by (simp add: numeral_2_eq_2)
  have 0: "safeModelCall_from chat m msgs 2 0 =
     ([HandleChat m msgs] @ fst (safeModelCall_from chat m msgs 2 1),
      snd (safeModelCall_from chat m msgs 2 1))"
    using smc_failed_more [where chat = chat and i = 0 and retries = 2 and m = m and msgs = msgs, OF assms(1)] by simp
  show ?thesis
    unfolding safeModelCall_def 0 1 using 2 by simp
qed

lemma safeModelCall_shape:
  "fst (safeModelCall chat m msgs) \<in>
     {[HandleChat m msgs],
      [HandleChat m msgs, Delay 2000, HandleChat m msgs],
      [HandleChat m msgs, Delay 2000, HandleChat m msgs, Delay 2000, HandleChat m msgs]}"
proof -
  have 2: "fst (safeModelCall_from chat m msgs 2 2) = [Delay 2000, HandleChat m msgs]"
  proof (cases "attempt_failed (chat 2)")
    case True
    from smc_failed_last [where chat = chat and i = 2 and retries = 2 and m = m and msgs = msgs, OF True] show ?thesis by auto
  next
    case False
    then obtain res body where "chat 2 = ChatReturns (Some res)" "cr_content res = Some body"
      by (rule attempt_ok)
    from smc_ok [where chat = chat and i = 2 and retries = 2 and m = m and msgs = msgs, OF this] show ?thesis by simp
  qed
  have 1: "fst (safeModelCall_from chat m msgs 2 1) \<in>
     {[Delay 2000, HandleChat m msgs], [Delay 2000, HandleChat m msgs, Delay 2000, HandleChat m msgs]}"
  proof (cases "attempt_failed (chat 1)")
    case True
    from smc_failed_more [where chat = chat and i = 1 and retries = 2 and m = m and msgs = msgs, OF True] 2 show ?thesis by (simp add: numeral_2_eq_2)
  next
    case False
    then obtain res body where "chat 1 = ChatReturns (Some res)" "cr_content res = Some body"
      by (rule attempt_ok)
    from smc_ok [where chat = chat and i = 1 and retries = 2 and m = m and msgs = msgs, OF this] show ?thesis by simp
  qed
  show ?thesis
  proof (cases "attempt_failed (chat 0)")
    case True
    from smc_failed_more [where chat = chat and i = 0 and retries = 2 and m = m and msgs = msgs, OF True] 1 show ?thesis
      by (auto simp: safeModelCall_def)
  next
    case False
    then obtain res body where "chat 0 = ChatReturns (Some res)" "cr_content res = Some body"
      by (rule attempt_ok)
    from smc_ok [where chat = chat and i = 0 and retries = 2 and m = m and msgs = msgs, OF this] show ?thesis by (simp add: safeModelCall_def)
  qed
qed

lemma safeModelCall_first_time:
  assumes "chat 0 = ChatReturns (Some res)" "cr_content res = Some text"
  shows "safeModelCall chat m msgs =
     ([HandleChat m msgs],
      \<lparr> success = True, sc_content = Some text, sc_tokenUsage = cr_usage res,
        sc_durationUsage = cr_duration res, sc_error = None \<rparr>)"
  using smc_ok [where chat = chat and i = 0 and retries = 2 and m = m and msgs = msgs, OF assms] by (simp add: safeModelCall_def)

lemma work_prompts_work_call:
  "set (work_prompts (fst (safeModelCall chat m (WorkMessages prompt)))) = {prompt}"
  using safeModelCall_shape [of chat m "WorkMessages prompt"] by auto

lemma work_prompts_score_call:
  "work_prompts (fst (safeModelCall chat m (ScoreMessages q a b n))) = []"
  using safeModelCall_shape [of chat m "ScoreMessages q a b n"] by auto

lemma no_terminal_call: "no_terminal (fst (safeModelCall chat m msgs))"
  using safeModelCall_shape [of chat m msgs] by auto

subsection \<open>retrieval\<close>

lemma fall_back_throws_only: "throws_only cancelled_message (fall_back_to_question w l i tc vars message)"
  unfolding fall_back_to_question_def by (intro throws_only_and_then) simp_all

lemma fall_back_no_terminal: "no_terminal (fst (fall_back_to_question w l i tc vars message))"
  unfolding fall_back_to_question_def by (intro no_terminal_and_then) (simp_all add: ret_def)

lemma fall_back_work_prompts: "work_prompts (fst (fall_back_to_question w l i tc vars message)) = []"
  unfolding fall_back_to_question_def by (intro work_prompts_and_then) (simp_all add: ret_def)

lemma fall_back_calm:
  "\<not> aborted w (InCase l i AtLogRetrievalFailed) \<Longrightarrow>
   fall_back_to_question w l i tc vars message
     = ([Emit (EvLog (RetrievalFailed message))], Inr (vars, tc_question tc))"
  by (simp add: fall_back_to_question_def ret_def onProgress_calm and_then_simps)


lemma retrieval_cases:
  obtains (failed) vars message where
      "retrieve_and_rerank w cfg l i = (vars, Inl message)"
      "retrieval w cfg l i tc = fall_back_to_question w l i tc vars message"
  | (caught) vars rc rr where
      "retrieve_and_rerank w cfg l i = (vars, Inr (rc, rr))"
      "aborted w (InCase l i AtLogRerankDone)"
      "retrieval w cfg l i tc = fall_back_to_question w l i tc vars cancelled_message"
  | (reranked) vars rc rr where
      "retrieve_and_rerank w cfg l i = (vars, Inr (rc, rr))"
      "\<not> aborted w (InCase l i AtLogRerankDone)"
      "retrieval w cfg l i tc =
         ([Emit (EvLog (RerankDone (rerankDuration vars)))],
          Inr (vars, prompt_with (finalContextChunks rc rr) (tc_question tc)))"
proof (cases "retrieve_and_rerank w cfg l i")
  case (Pair vars r)
  show ?thesis
  proof (cases r)
    case (Inl message)
    with Pair show ?thesis using failed by (simp add: retrieval_def)
  next
    case (Inr p)
    obtain rc rr where p: "p = (rc, rr)" by (cases p)
    show ?thesis
    proof (cases "aborted w (InCase l i AtLogRerankDone)")
      case True
      with Pair Inr p show ?thesis using caught by (simp add: retrieval_def)
    next
      case False
      with Pair Inr p show ?thesis using reranked
        by (simp add: retrieval_def and_then_simps ret_def)
    qed
  qed
qed

lemma retrieval_throws_only: "throws_only cancelled_message (retrieval w cfg l i tc)"
  by (cases rule: retrieval_cases [of w cfg l i tc]) (simp_all add: fall_back_throws_only)

lemma retrieval_no_terminal: "no_terminal (fst (retrieval w cfg l i tc))"
  by (cases rule: retrieval_cases [of w cfg l i tc]) (simp_all add: fall_back_no_terminal)

lemma retrieval_work_prompts: "work_prompts (fst (retrieval w cfg l i tc)) = []"
  by (cases rule: retrieval_cases [of w cfg l i tc]) (simp_all add: fall_back_work_prompts)

lemma retrieval_completes:
  "\<not> aborted w (InCase l i AtLogRetrievalFailed) \<Longrightarrow> \<not> aborted w (InCase l i AtLogRerankDone) \<Longrightarrow>
   completes (retrieval w cfg l i tc)"
  by (cases rule: retrieval_cases [of w cfg l i tc]) (simp_all add: fall_back_calm)


subsection \<open>account_tokens\<close>

lemma account_tokens_cases:
  obtains (none) "sc_tokenUsage r = None" "account_tokens w p r st = ret st"
  | (some) u where "sc_tokenUsage r = Some u"
      "account_tokens w p r st =
         and_then (onProgress w p (EvTokenUsage (totalTokenUsage st + total_tokens u)))
           (\<lambda>_. ret (st \<lparr> totalTokenUsage := totalTokenUsage st + total_tokens u \<rparr>))"
  by (cases "sc_tokenUsage r") (simp_all add: account_tokens_def Let_def)

lemma account_tokens_throws_only: "throws_only cancelled_message (account_tokens w p r st)"
  by (cases rule: account_tokens_cases [of r w p st]) (simp_all add: throws_only_and_then)

lemma account_tokens_no_terminal: "no_terminal (fst (account_tokens w p r st))"
  by (cases rule: account_tokens_cases [of r w p st])
    (simp_all add: ret_def no_terminal_and_then)

lemma account_tokens_work_prompts: "work_prompts (fst (account_tokens w p r st)) = []"
  by (cases rule: account_tokens_cases [of r w p st])
    (simp_all add: ret_def work_prompts_and_then)

lemma account_tokens_completes: "\<not> aborted w p \<Longrightarrow> completes (account_tokens w p r st)"
  by (cases rule: account_tokens_cases [of r w p st])
    (simp_all add: completes_and_then completes_onProgress)

lemma account_tokens_work_promptsD: "account_tokens w p r st = (es, x) \<Longrightarrow> work_prompts es = []"
  by (metis account_tokens_work_prompts fst_conv)

subsection \<open>work_phase\<close>

lemma call_step_simp:
  "(case c of (es, r) \<Rightarrow> (es, Inr r)) = (fst c, Inr (snd c))"
  by (cases c) simp

lemma throws_only_if:
  "throws_only c a \<Longrightarrow> throws_only c b \<Longrightarrow> throws_only c (if P then a else b)"
  by simp

lemma no_terminal_if:
  "no_terminal (fst a) \<Longrightarrow> no_terminal (fst b) \<Longrightarrow> no_terminal (fst (if P then a else b))"
  by simp

lemma work_prompts_if:
  "work_prompts (fst a) = [] \<Longrightarrow> work_prompts (fst b) = [] \<Longrightarrow>
   work_prompts (fst (if P then a else b)) = []"
  by simp

lemma completes_if:
  "completes a \<Longrightarrow> completes b \<Longrightarrow> completes (if P then a else b)"
  by simp

lemma work_phase_throws_only: "throws_only cancelled_message (work_phase w cfg l i tc prompt st)"
  unfolding work_phase_def call_step_simp
  by (intro throws_only_and_then throws_only_if throws_only_check throws_only_perform
      throws_only_Inr account_tokens_throws_only throws_only_onProgress throws_only_ret)

lemma work_phase_no_terminal: "no_terminal (fst (work_phase w cfg l i tc prompt st))"
  unfolding work_phase_def call_step_simp
  by (intro no_terminal_and_then no_terminal_if no_terminal_check account_tokens_no_terminal
      no_terminal_onProgress)
    (simp_all add: no_terminal_call perform_def ret_def)

lemma work_phase_completes:
  "\<forall>p. \<not> aborted w (InCase l i p) \<Longrightarrow> completes (work_phase w cfg l i tc prompt st)"
  unfolding work_phase_def call_step_simp
  by (intro completes_and_then completes_if account_tokens_completes completes_onProgress
      completes_check completes_perform completes_Inr completes_ret) simp_all

lemma work_phase_InrD:
  assumes "work_phase w cfg l i tc prompt st = (es, Inr (wr, st2))"
  shows "wr = snd (safeModelCall (work_chat w l i) (work_model cfg) (WorkMessages prompt))"
    and "set (work_prompts es) = {prompt}"
proof -
  from assms obtain es1 es2 es3 es4 es5 es6 es7 es8 x3 st1 u1 u2 u5 u6 u7 where
    p1: "throw_if_cancelled w (InCase l i BeforeWorkCall) = (es1, Inr u1)"
    and p2: "perform (AppendToLogFile l (QuestionHeader (tc_id tc) (tc_question tc))) = (es2, Inr u2)"
    and p3: "(fst (safeModelCall (work_chat w l i) (work_model cfg) (WorkMessages prompt)),
              Inr (snd (safeModelCall (work_chat w l i) (work_model cfg) (WorkMessages prompt))))
             = (es3, Inr x3)"
    and p4: "account_tokens w (InCase l i AtTokenUsageWork) x3 st = (es4, Inr st1)"
    and p5: "(if success x3 then ret ()
              else onProgress w (InCase l i AtLogAnswerFailed) (EvLog (AnswerFailed (tc_id tc))))
             = (es5, Inr u5)"
    and p6: "perform (AppendToLogFile l (FinalAnswer (modelAnswer_of x3))) = (es6, Inr u6)"
    and p7: "onProgress w (InCase l i AtStateAnswer)
               (EvStateAnswer (tc_id tc) (tc_question tc) (modelAnswer_of x3)) = (es7, Inr u7)"
    and p8: "ret (x3, st1) = (es8, Inr (wr, st2))"
    and es: "es = es1 @ es2 @ es3 @ es4 @ es5 @ es6 @ es7 @ es8"
    unfolding work_phase_def call_step_simp
    by (elim and_then_InrE) simp
  from p8 have x3: "x3 = wr" and e8: "es8 = []" by (simp_all add: ret_def)
  from p3 x3 show wr: "wr = snd (safeModelCall (work_chat w l i) (work_model cfg) (WorkMessages prompt))"
    by simp
  from p3 have e3: "es3 = fst (safeModelCall (work_chat w l i) (work_model cfg) (WorkMessages prompt))"
    by simp
  have "work_prompts es1 = []" using p1 by (rule work_prompts_checkD)
  moreover have "work_prompts es2 = []" using p2 by (auto simp: perform_def)
  moreover have "work_prompts es4 = []" using p4 by (rule account_tokens_work_promptsD)
  moreover have "work_prompts es5 = []"
  proof (cases "success x3")
    case True
    with p5 show ?thesis by (simp add: ret_def)
  next
    case False
    with p5 show ?thesis by (auto dest: work_prompts_onProgressD)
  qed
  moreover have "work_prompts es6 = []" using p6 by (auto simp: perform_def)
  moreover have "work_prompts es7 = []" using p7 by (rule work_prompts_onProgressD)
  ultimately show "set (work_prompts es) = {prompt}"
    using work_prompts_work_call [of "work_chat w l i" "work_model cfg" prompt]
    by (simp add: es e3 e8)
qed

subsection \<open>score_phase\<close>

lemma score_phase_throws_only: "throws_only cancelled_message (score_phase w cfg l i tc wr st)"
  unfolding score_phase_def call_step_simp
  by (intro throws_only_and_then throws_only_if throws_only_check throws_only_perform
      throws_only_Inr account_tokens_throws_only throws_only_onProgress throws_only_ret)

lemma score_phase_no_terminal: "no_terminal (fst (score_phase w cfg l i tc wr st))"
  unfolding score_phase_def call_step_simp
  by (intro no_terminal_and_then no_terminal_if no_terminal_check account_tokens_no_terminal
      no_terminal_onProgress)
    (simp_all add: no_terminal_call perform_def ret_def)

lemma score_phase_work_prompts: "work_prompts (fst (score_phase w cfg l i tc wr st)) = []"
  unfolding score_phase_def call_step_simp
  by (intro work_prompts_and_then work_prompts_if account_tokens_work_prompts
      work_prompts_onProgress work_prompts_check)
    (simp_all add: work_prompts_score_call perform_def ret_def)

lemma score_phase_completes:
  "\<forall>p. \<not> aborted w (InCase l i p) \<Longrightarrow> completes (score_phase w cfg l i tc wr st)"
  unfolding score_phase_def call_step_simp
  by (intro completes_and_then completes_if account_tokens_completes completes_onProgress
      completes_check completes_perform completes_Inr completes_ret) simp_all

lemma score_phase_InrD:
  assumes "score_phase w cfg l i tc wr st = (es, Inr (sr, st3))"
  shows "sr = (if success wr
               then Some (snd (safeModelCall (score_chat w l i) (score_model cfg)
                      (ScoreMessages (tc_question tc) (tc_answer tc) (modelAnswer_of wr) (tc_score tc))))
               else None)"
proof (cases "success wr")
  case False
  with assms show ?thesis by (simp add: score_phase_def ret_def)
next
  case True
  let ?call = "safeModelCall (score_chat w l i) (score_model cfg)
                 (ScoreMessages (tc_question tc) (tc_answer tc) (modelAnswer_of wr) (tc_score tc))"
  from assms True obtain es3 x3 es6 st1 where
    p3: "(fst ?call, Inr (snd ?call)) = (es3, Inr x3)"
    and p6: "ret (Some x3, st1) = (es6, Inr (sr, st3))"
    unfolding score_phase_def call_step_simp if_P [OF True]
    by (elim and_then_InrE) simp
  from p3 p6 True show ?thesis by (simp add: ret_def)
qed

subsection \<open>answer_case\<close>

lemma answer_case_throws_only: "throws_only cancelled_message (answer_case w cfg l i tc st)"
  unfolding answer_case_def Let_def case_prod_beta
  by (intro throws_only_and_then throws_only_onProgress retrieval_throws_only
      work_phase_throws_only score_phase_throws_only throws_only_ret)

lemma answer_case_no_terminal: "no_terminal (fst (answer_case w cfg l i tc st))"
  unfolding answer_case_def Let_def case_prod_beta
  by (intro no_terminal_and_then no_terminal_onProgress retrieval_no_terminal
      work_phase_no_terminal score_phase_no_terminal)
    (simp_all add: ret_def)

lemma answer_case_completes:
  "\<forall>p. \<not> aborted w (InCase l i p) \<Longrightarrow> completes (answer_case w cfg l i tc st)"
  unfolding answer_case_def Let_def case_prod_beta
  by (intro completes_and_then completes_onProgress retrieval_completes
      work_phase_completes score_phase_completes completes_ret) simp_all

lemma answer_case_first_abort:
  "aborted w (InCase l i AtUpdateAnswer) \<Longrightarrow> answer_case w cfg l i tc st = ([], Inl cancelled_message)"
  by (simp add: answer_case_def Let_def onProgress_aborted and_then_throw)

lemma answer_case_InrD:
  assumes "answer_case w cfg l i tc st = (es, Inr (e, st'))"
  obtains es1 vars prompt where
    "retrieval w cfg l i tc = (es1, Inr (vars, prompt))"
    "e = resultEntry tc vars
           (snd (safeModelCall (work_chat w l i) (work_model cfg) (WorkMessages prompt)))
           (if success (snd (safeModelCall (work_chat w l i) (work_model cfg) (WorkMessages prompt)))
            then Some (snd (safeModelCall (score_chat w l i) (score_model cfg)
                   (ScoreMessages (tc_question tc) (tc_answer tc)
                      (modelAnswer_of (snd (safeModelCall (work_chat w l i) (work_model cfg)
                                              (WorkMessages prompt))))
                      (tc_score tc))))
            else None)"
    "set (work_prompts es) = {prompt}"
proof -
  from assms obtain x1 es1 x2 es2 x3 es3 x4 es4 x5 es5 x6 es6 es7 where
    p1: "onProgress w (InCase l i AtUpdateAnswer)
           (EvUpdate Answering (tc_id tc) (progress cfg (currentTask st + 1)) (currentTask st + 1))
         = (es1, Inr x1)"
    and p2: "onProgress w (InCase l i AtLogRetrieving) (EvLog (Retrieving (tc_id tc))) = (es2, Inr x2)"
    and p3: "retrieval w cfg l i tc = (es3, Inr x3)"
    and p4: "work_phase w cfg l i tc (snd x3) (st \<lparr> currentTask := currentTask st + 1 \<rparr>) = (es4, Inr x4)"
    and p5: "score_phase w cfg l i tc (fst x4) (snd x4 \<lparr> currentTask := currentTask (snd x4) + 1 \<rparr>)
         = (es5, Inr x5)"
    and p6: "onProgress w (InCase l i AtStateScore) (EvStateScore (score_of (fst x5)) (tc_score tc))
         = (es6, Inr x6)"
    and p7: "ret (resultEntry tc (fst x3) (fst x4) (fst x5), snd x5) = (es7, Inr (e, st'))"
    and es: "es = es1 @ es2 @ es3 @ es4 @ es5 @ es6 @ es7"
    unfolding answer_case_def Let_def case_prod_beta
    by (elim and_then_InrE) simp
  obtain vars prompt where x3: "x3 = (vars, prompt)" by (cases x3)
  obtain wr st2 where x4: "x4 = (wr, st2)" by (cases x4)
  obtain sr st3 where x5: "x5 = (sr, st3)" by (cases x5)
  from p4 x3 x4 have
    wr: "wr = snd (safeModelCall (work_chat w l i) (work_model cfg) (WorkMessages prompt))"
    and wp: "set (work_prompts es4) = {prompt}"
    by (auto dest: work_phase_InrD)
  from p5 x4 x5 have
    sr: "sr = (if success wr
               then Some (snd (safeModelCall (score_chat w l i) (score_model cfg)
                      (ScoreMessages (tc_question tc) (tc_answer tc) (modelAnswer_of wr) (tc_score tc))))
               else None)"
    by (auto dest: score_phase_InrD)
  from p7 x3 x4 x5 have e: "e = resultEntry tc vars wr sr" and e7: "es7 = []"
    by (simp_all add: ret_def)
  have "work_prompts es1 = []" using p1 by (rule work_prompts_onProgressD)
  moreover have "work_prompts es2 = []" using p2 by (rule work_prompts_onProgressD)
  moreover have "work_prompts es3 = []" using p3 retrieval_work_prompts [of w cfg l i tc] by simp
  moreover have "work_prompts es5 = []"
    using p5 score_phase_work_prompts [of w cfg l i tc "fst x4" "snd x4 \<lparr> currentTask := currentTask (snd x4) + 1 \<rparr>"]
    by simp
  moreover have "work_prompts es6 = []" using p6 by (rule work_prompts_onProgressD)
  ultimately have "set (work_prompts es) = {prompt}"
    using wp by (simp add: es e7)
  with p3 x3 e wr sr show ?thesis
    using that [of es3 vars prompt] by simp
qed

lemma reports_resultEntry: "reports (resultEntry tc vars wr sr) tc"
  by (simp add: reports_def resultEntry_def)

lemma answer_case_reports:
  "answer_case w cfg l i tc st = (es, Inr (e, st')) \<Longrightarrow> reports e tc"
  by (erule answer_case_InrD) (simp add: reports_resultEntry)

lemma process_case_continues:
  assumes "completes (answer_case w cfg l i tc st)"
  shows "\<exists>es e st'. answer_case w cfg l i tc st = (es, Inr (e, st'))
     \<and> process_case w cfg l i tc (st, qa)
         = (map Within es @ [WriteResults l (qa @ [e]), Within (Delay 1500)], qa @ [e], Inr st')"
proof -
  from assms obtain es x where a: "answer_case w cfg l i tc st = (es, Inr x)"
    by (rule completesE)
  obtain e st' where x: "x = (e, st')" by (cases x)
  show ?thesis using a x by (simp add: process_case_def)
qed

lemma entry_fields [simp]:
  "e_modelAnswer (resultEntry tc vars wr sr) = modelAnswer_of wr"
  "e_error (resultEntry tc vars wr sr) = sc_error wr"
  "e_score (resultEntry tc vars wr sr) = score_of sr"
  by (simp_all add: resultEntry_def)

lemma entry_third_time:
  assumes "answer_case w cfg l i tc st = (es, Inr (e, st'))"
    and "attempt_failed (work_chat w l i 0)" "attempt_failed (work_chat w l i 1)"
    and "work_chat w l i 2 = ChatReturns (Some res)" "cr_content res = Some body"
  shows "e_modelAnswer e = body \<and> e_error e = None"
  using assms(1)
proof (rule answer_case_InrD)
  fix es1 vars prompt
  let ?wr = "snd (safeModelCall (work_chat w l i) (work_model cfg) (WorkMessages prompt))"
  assume e: "e = resultEntry tc vars ?wr
      (if success ?wr
       then Some (snd (safeModelCall (score_chat w l i) (score_model cfg)
              (ScoreMessages (tc_question tc) (tc_answer tc) (modelAnswer_of ?wr) (tc_score tc))))
       else None)"
  have "?wr = \<lparr> success = True, sc_content = Some body, sc_tokenUsage = cr_usage res,
        sc_durationUsage = cr_duration res, sc_error = None \<rparr>"
    using safeModelCall_third_time [where chat = "work_chat w l i", OF assms(2-5)] by simp
  then show ?thesis
    by (simp add: e modelAnswer_of_def)
qed

lemma entry_work_failed:
  assumes "answer_case w cfg l i tc st = (es, Inr (e, st'))"
    and "attempt_failed (work_chat w l i 0)" "attempt_failed (work_chat w l i 1)"
    and "attempt_failed (work_chat w l i 2)"
  shows "e_modelAnswer e = placeholder_answer \<and> (\<exists>message. message \<noteq> [] \<and> e_error e = Some message)
     \<and> e_score e = 0"
  using assms(1)
proof (rule answer_case_InrD)
  fix es1 vars prompt
  let ?wr = "snd (safeModelCall (work_chat w l i) (work_model cfg) (WorkMessages prompt))"
  assume e: "e = resultEntry tc vars ?wr
      (if success ?wr
       then Some (snd (safeModelCall (score_chat w l i) (score_model cfg)
              (ScoreMessages (tc_question tc) (tc_answer tc) (modelAnswer_of ?wr) (tc_score tc))))
       else None)"
  from safeModelCall_all_fail [where chat = "work_chat w l i", OF assms(2-4)]
  obtain message where "message \<noteq> []"
    "?wr = \<lparr> success = False, sc_content = None, sc_tokenUsage = None,
        sc_durationUsage = None, sc_error = Some message \<rparr>"
    by (metis snd_conv)
  then show ?thesis
    by (simp add: e modelAnswer_of_def score_of_def)
qed

lemma entry_score_failed:
  assumes "answer_case w cfg l i tc st = (es, Inr (e, st'))"
    and "work_chat w l i 0 = ChatReturns (Some res)" "cr_content res = Some body"
    and "attempt_failed (score_chat w l i 0)" "attempt_failed (score_chat w l i 1)"
    and "attempt_failed (score_chat w l i 2)"
  shows "e_modelAnswer e = body \<and> e_error e = None \<and> e_score e = 0"
  using assms(1)
proof (rule answer_case_InrD)
  fix es1 vars prompt
  let ?wr = "snd (safeModelCall (work_chat w l i) (work_model cfg) (WorkMessages prompt))"
  let ?sr = "snd (safeModelCall (score_chat w l i) (score_model cfg)
              (ScoreMessages (tc_question tc) (tc_answer tc) (modelAnswer_of ?wr) (tc_score tc)))"
  assume e: "e = resultEntry tc vars ?wr (if success ?wr then Some ?sr else None)"
  have wr: "?wr = \<lparr> success = True, sc_content = Some body, sc_tokenUsage = cr_usage res,
        sc_durationUsage = cr_duration res, sc_error = None \<rparr>"
    using safeModelCall_first_time [where chat = "work_chat w l i", OF assms(2,3)] by simp
  from safeModelCall_all_fail [where chat = "score_chat w l i", OF assms(4-6)]
  have "\<not> success ?sr"
    by (metis snd_conv safe_call_result.select_convs(1))
  then show ?thesis
    by (simp add: e wr modelAnswer_of_def score_of_def)
qed

subsection \<open>Degraded retrieval\<close>








lemma completes_eq:
  "completes m \<Longrightarrow> m = (fst m, Inr (projr (snd m)))"
  by (cases m) (auto simp: completes_def split: sum.splits)



subsection \<open>Retries and what a failed call leaves in the entry\<close>

text \<open>
  C3, as the claim states it, fails for the scoring model.  In the world
  \<open>score_model_down\<close> the work model answers "ok" at once and all three attempts of the
  scoring call fail; the entry then has no \<open>error\<close> (the source stores \<open>workResult.error\<close>
  only) and its \<open>modelAnswer\<close> is the answer, not the placeholder.
\<close>

theorem score_failure_leaves_no_error:
  "attempt_failed (score_chat score_model_down 1 0 0)
   \<and> attempt_failed (score_chat score_model_down 1 0 1)
   \<and> attempt_failed (score_chat score_model_down 1 0 2)
   \<and> completes (answer_case score_model_down one_case 1 0 (sample_case 1) start_state)
   \<and> e_error (fst (projr (snd
         (answer_case score_model_down one_case 1 0 (sample_case 1) start_state)))) = None
   \<and> e_modelAnswer (fst (projr (snd
         (answer_case score_model_down one_case 1 0 (sample_case 1) start_state)))) = js ''ok''
   \<and> js ''ok'' \<noteq> placeholder_answer"
  by code_simp

text \<open>
  C3, amended.  A call through \<open>safeModelCall\<close>, of the work model or of the scoring
  model, makes one, two or three attempts, and waits 2000 ms before the second and before
  the third.  If two attempts fail and the third answers, the call succeeds with that
  answer; if all three fail, it fails with a message.  In the entry of a test case that
  completes: a work call that succeeds at the third attempt leaves the answer and no
  error; a work call that fails three times leaves the placeholder answer, the error
  message and the score 0; a scoring call that fails three times leaves the answer of the
  work model, no error and the score 0.  Unless the run is cancelled, the test case
  completes whatever the calls do, its entry is written, and the loop goes on with the
  next test case.
\<close>

theorem retry_bound_and_entries:
  "fst (safeModelCall chat m msgs) \<in>
     {[HandleChat m msgs],
      [HandleChat m msgs, Delay 2000, HandleChat m msgs],
      [HandleChat m msgs, Delay 2000, HandleChat m msgs, Delay 2000, HandleChat m msgs]}
   \<and> (attempt_failed (chat 0) \<and> attempt_failed (chat 1)
        \<and> chat 2 = ChatReturns (Some res) \<and> cr_content res = Some body \<longrightarrow>
      safeModelCall chat m msgs =
        ([HandleChat m msgs, Delay 2000, HandleChat m msgs, Delay 2000, HandleChat m msgs],
         \<lparr> success = True, sc_content = Some body, sc_tokenUsage = cr_usage res,
           sc_durationUsage = cr_duration res, sc_error = None \<rparr>))
   \<and> (attempt_failed (chat 0) \<and> attempt_failed (chat 1) \<and> attempt_failed (chat 2) \<longrightarrow>
      (\<exists>message. message \<noteq> [] \<and> safeModelCall chat m msgs =
        ([HandleChat m msgs, Delay 2000, HandleChat m msgs, Delay 2000, HandleChat m msgs],
         \<lparr> success = False, sc_content = None, sc_tokenUsage = None,
           sc_durationUsage = None, sc_error = Some message \<rparr>)))
   \<and> (answer_case w config loop i testCase st = (es, Inr (entry, st')) \<longrightarrow>
        (attempt_failed (work_chat w loop i 0) \<and> attempt_failed (work_chat w loop i 1)
           \<and> work_chat w loop i 2 = ChatReturns (Some res) \<and> cr_content res = Some body \<longrightarrow>
         e_modelAnswer entry = body \<and> e_error entry = None)
      \<and> (attempt_failed (work_chat w loop i 0) \<and> attempt_failed (work_chat w loop i 1)
           \<and> attempt_failed (work_chat w loop i 2) \<longrightarrow>
         e_modelAnswer entry = placeholder_answer
         \<and> (\<exists>message. message \<noteq> [] \<and> e_error entry = Some message) \<and> e_score entry = 0)
      \<and> (work_chat w loop i 0 = ChatReturns (Some res) \<and> cr_content res = Some body
           \<and> attempt_failed (score_chat w loop i 0) \<and> attempt_failed (score_chat w loop i 1)
           \<and> attempt_failed (score_chat w loop i 2) \<longrightarrow>
         e_modelAnswer entry = body \<and> e_error entry = None \<and> e_score entry = 0))
   \<and> ((\<forall>p. \<not> aborted w (InCase loop i p)) \<longrightarrow>
        (\<exists>es e st'. answer_case w config loop i testCase st = (es, Inr (e, st'))
          \<and> run_cases w config loop i (testCase # rest) (st, qaResults) =
              (case run_cases w config loop (Suc i) rest (st', qaResults @ [e]) of
                 (bs, r) \<Rightarrow>
                   ((map Within es @ [WriteResults loop (qaResults @ [e]), Within (Delay 1500)]) @ bs,
                    r))))"
proof (intro conjI impI)
  show "fst (safeModelCall chat m msgs) \<in>
     {[HandleChat m msgs],
      [HandleChat m msgs, Delay 2000, HandleChat m msgs],
      [HandleChat m msgs, Delay 2000, HandleChat m msgs, Delay 2000, HandleChat m msgs]}"
    by (rule safeModelCall_shape)
next
  assume "attempt_failed (chat 0) \<and> attempt_failed (chat 1)
        \<and> chat 2 = ChatReturns (Some res) \<and> cr_content res = Some body"
  then show "safeModelCall chat m msgs =
        ([HandleChat m msgs, Delay 2000, HandleChat m msgs, Delay 2000, HandleChat m msgs],
         \<lparr> success = True, sc_content = Some body, sc_tokenUsage = cr_usage res,
           sc_durationUsage = cr_duration res, sc_error = None \<rparr>)"
    using safeModelCall_third_time [where chat = chat] by blast
next
  assume "attempt_failed (chat 0) \<and> attempt_failed (chat 1) \<and> attempt_failed (chat 2)"
  then show "\<exists>message. message \<noteq> [] \<and> safeModelCall chat m msgs =
        ([HandleChat m msgs, Delay 2000, HandleChat m msgs, Delay 2000, HandleChat m msgs],
         \<lparr> success = False, sc_content = None, sc_tokenUsage = None,
           sc_durationUsage = None, sc_error = Some message \<rparr>)"
    using safeModelCall_all_fail [where chat = chat] by blast
next
  assume "answer_case w config loop i testCase st = (es, Inr (entry, st'))"
    and "attempt_failed (work_chat w loop i 0) \<and> attempt_failed (work_chat w loop i 1)
           \<and> work_chat w loop i 2 = ChatReturns (Some res) \<and> cr_content res = Some body"
  then show "e_modelAnswer entry = body" "e_error entry = None"
    using entry_third_time by blast+
next
  assume "answer_case w config loop i testCase st = (es, Inr (entry, st'))"
    and "attempt_failed (work_chat w loop i 0) \<and> attempt_failed (work_chat w loop i 1)
           \<and> attempt_failed (work_chat w loop i 2)"
  then show "e_modelAnswer entry = placeholder_answer"
    "\<exists>message. message \<noteq> [] \<and> e_error entry = Some message" "e_score entry = 0"
    using entry_work_failed by blast+
next
  assume "answer_case w config loop i testCase st = (es, Inr (entry, st'))"
    and "work_chat w loop i 0 = ChatReturns (Some res) \<and> cr_content res = Some body
           \<and> attempt_failed (score_chat w loop i 0) \<and> attempt_failed (score_chat w loop i 1)
           \<and> attempt_failed (score_chat w loop i 2)"
  then show "e_modelAnswer entry = body" "e_error entry = None" "e_score entry = 0"
    using entry_score_failed by blast+
next
  assume "\<forall>p. \<not> aborted w (InCase loop i p)"
  then have "completes (answer_case w config loop i testCase st)"
    by (rule answer_case_completes)
  from process_case_continues [OF this, of qaResults]
  show "\<exists>es e st'. answer_case w config loop i testCase st = (es, Inr (e, st'))
          \<and> run_cases w config loop i (testCase # rest) (st, qaResults) =
              (case run_cases w config loop (Suc i) rest (st', qaResults @ [e]) of
                 (bs, r) \<Rightarrow>
                   ((map Within es @ [WriteResults loop (qaResults @ [e]), Within (Delay 1500)]) @ bs,
                    r))"
    by auto
qed

theorem retry_bound_and_entries_witness:
  "attempt_failed (work_chat third_time_lucky 1 0 0)
   \<and> attempt_failed (work_chat third_time_lucky 1 0 1)
   \<and> work_chat third_time_lucky 1 0 2 = ChatReturns (Some ok_result)
   \<and> cr_content ok_result = Some (js ''ok'')
   \<and> (\<forall>p. \<not> aborted third_time_lucky (InCase 1 0 p))
   \<and> fst (safeModelCall (work_chat third_time_lucky 1 0) (js ''w'') (WorkMessages (js ''q'')))
       = [HandleChat (js ''w'') (WorkMessages (js ''q'')), Delay 2000,
          HandleChat (js ''w'') (WorkMessages (js ''q'')), Delay 2000,
          HandleChat (js ''w'') (WorkMessages (js ''q''))]
   \<and> e_modelAnswer (fst (projr (snd
         (answer_case third_time_lucky one_case 1 0 (sample_case 1) start_state)))) = js ''ok''
   \<and> e_error (fst (projr (snd
         (answer_case third_time_lucky one_case 1 0 (sample_case 1) start_state)))) = None
   \<and> attempt_failed (work_chat work_model_down 1 0 0)
   \<and> attempt_failed (work_chat work_model_down 1 0 1)
   \<and> attempt_failed (work_chat work_model_down 1 0 2)
   \<and> e_modelAnswer (fst (projr (snd
         (answer_case work_model_down one_case 1 0 (sample_case 1) start_state))))
       = placeholder_answer
   \<and> e_error (fst (projr (snd
         (answer_case work_model_down one_case 1 0 (sample_case 1) start_state))))
       = Some (js ''timeout'')"
proof -
  let ?lucky = "answer_case third_time_lucky one_case 1 0 (sample_case 1) start_state"
  let ?down = "answer_case work_model_down one_case 1 0 (sample_case 1) start_state"
  have f: "attempt_failed (work_chat third_time_lucky 1 0 0)
      \<and> attempt_failed (work_chat third_time_lucky 1 0 1)
      \<and> work_chat third_time_lucky 1 0 2 = ChatReturns (Some ok_result)
      \<and> cr_content ok_result = Some (js ''ok'')"
    by code_simp
  have n: "\<forall>p. \<not> aborted third_time_lucky (InCase 1 0 p)"
    by (simp add: third_time_lucky_def calm_def)
  have g: "attempt_failed (work_chat work_model_down 1 0 0)
      \<and> attempt_failed (work_chat work_model_down 1 0 1)
      \<and> attempt_failed (work_chat work_model_down 1 0 2)"
    by code_simp
  have c: "completes ?lucky" "completes ?down"
    by code_simp+
  have m: "e_error (fst (projr (snd ?down))) = Some (js ''timeout'')"
    by code_simp
  note lucky = retry_bound_and_entries [where chat = "work_chat third_time_lucky 1 0"
      and m = "js ''w''" and msgs = "WorkMessages (js ''q'')" and res = ok_result
      and body = "js ''ok''" and w = third_time_lucky and config = one_case and loop = 1
      and i = 0 and testCase = "sample_case 1" and st = start_state and es = "fst ?lucky"
      and entry = "fst (projr (snd ?lucky))" and st' = "snd (projr (snd ?lucky))"]
  note down = retry_bound_and_entries [where w = work_model_down and config = one_case
      and loop = 1 and i = 0 and testCase = "sample_case 1" and st = start_state
      and es = "fst ?down" and entry = "fst (projr (snd ?down))"
      and st' = "snd (projr (snd ?down))"]
  have e1: "?lucky = (fst ?lucky, Inr (fst (projr (snd ?lucky)), snd (projr (snd ?lucky))))"
    using completes_eq [OF c(1)] by simp
  have e2: "?down = (fst ?down, Inr (fst (projr (snd ?down)), snd (projr (snd ?down))))"
    using completes_eq [OF c(2)] by simp
  from lucky f have s: "safeModelCall (work_chat third_time_lucky 1 0) (js ''w'') (WorkMessages (js ''q''))
      = ([HandleChat (js ''w'') (WorkMessages (js ''q'')), Delay 2000,
          HandleChat (js ''w'') (WorkMessages (js ''q'')), Delay 2000,
          HandleChat (js ''w'') (WorkMessages (js ''q''))],
         \<lparr> success = True, sc_content = Some (js ''ok''), sc_tokenUsage = cr_usage ok_result,
           sc_durationUsage = cr_duration ok_result, sc_error = None \<rparr>)"
    by blast
  from lucky f e1 have a: "e_modelAnswer (fst (projr (snd ?lucky))) = js ''ok''
      \<and> e_error (fst (projr (snd ?lucky))) = None"
    by blast
  from down g e2 have b: "e_modelAnswer (fst (projr (snd ?down))) = placeholder_answer"
    by blast
  from f n g s a b m show ?thesis
    by simp
qed

subsection \<open>The loops and the files they write\<close>

subsection \<open>Reading traces\<close>

lemma writes_of_append [simp]: "writes_of l (as @ bs) = writes_of l as @ writes_of l bs"
  by (induction l as rule: writes_of.induct) auto

lemma writes_of_Within [simp]: "writes_of l (map Within es) = []"
  by (induction es) auto

lemma events_of_append [simp]: "events_of (as @ bs) = events_of as @ events_of bs"
  by (induction as rule: events_of.induct) auto

lemma events_of_Within: "no_terminal es \<Longrightarrow> list_all (\<lambda>ev. \<not> terminal ev) (events_of (map Within es))"
  by (induction es rule: no_terminal.induct) auto

lemma writes_of_other: "\<forall>entries. a \<noteq> WriteResults l entries \<Longrightarrow> writes_of l (a # as) = writes_of l as"
  by (cases a) auto

lemma writes_of_take: "\<exists>k. writes_of l (take n as) = take k (writes_of l as)"
proof (induction as arbitrary: n)
  case Nil
  show ?case by simp
next
  case (Cons a as)
  show ?case
  proof (cases n)
    case 0
    show ?thesis unfolding 0 by (intro exI [of _ 0]) simp
  next
    case (Suc n')
    from Cons [of n'] obtain k where k: "writes_of l (take n' as) = take k (writes_of l as)" ..
    show ?thesis
    proof (cases "\<exists>entries. a = WriteResults l entries")
      case True
      then show ?thesis using k Suc by (intro exI [of _ "Suc k"]) auto
    next
      case False
      then have "\<forall>entries. a \<noteq> WriteResults l entries" by simp
      then show ?thesis using k Suc by (intro exI [of _ k]) (simp add: writes_of_other)
    qed
  qed
qed

lemma last_prefixes:
  "0 < k \<Longrightarrow> k \<le> length es \<Longrightarrow>
   last (take k (map (\<lambda>j. take (Suc j) es) [0..<length es])) = take k es"
proof -
  assume k: "0 < k" "k \<le> length es"
  then have "take k (map (\<lambda>j. take (Suc j) es) [0..<length es]) = map (\<lambda>j. take (Suc j) es) [0..<k]"
    by (simp add: take_map)
  moreover have "[0..<k] \<noteq> []" using k by simp
  moreover have "last [0..<k] = k - 1" using k by (cases k) simp_all
  ultimately show ?thesis using k by (simp add: last_map)
qed

lemma results_file_prefix:
  assumes "writes_of l as = map (\<lambda>j. take (Suc j) es) [0..<length es]"
  shows "results_file l (take n as) =
     (case length (writes_of l (take n as)) of 0 \<Rightarrow> None | Suc k \<Rightarrow> Some (take (Suc k) es))"
proof -
  from writes_of_take [of l n as] obtain k where
    k: "writes_of l (take n as) = take k (writes_of l as)" ..
  define k' where "k' = min k (length es)"
  have w: "writes_of l (take n as) = take k' (map (\<lambda>j. take (Suc j) es) [0..<length es])"
    unfolding k assms k'_def by (simp add: take_map min_def)
  have len: "length (writes_of l (take n as)) = k'"
    unfolding w by (simp add: k'_def)
  show ?thesis
  proof (cases k')
    case 0
    with w len show ?thesis by (simp add: results_file_def)
  next
    case (Suc j)
    then have pos: "0 < k'" "k' \<le> length es" by (simp_all add: k'_def)
    have ne: "take k' (map (\<lambda>j. take (Suc j) es) [0..<length es]) \<noteq> []"
      using pos by (cases es) auto
    then obtain x xs where c: "take k' (map (\<lambda>j. take (Suc j) es) [0..<length es]) = x # xs"
      by (cases "take k' (map (\<lambda>j. take (Suc j) es) [0..<length es])") auto
    have "results_file l (take n as) = Some (last (x # xs))"
      unfolding results_file_def w c by simp
    moreover have "last (x # xs) = take k' es"
      using last_prefixes [OF pos] unfolding c .
    ultimately show ?thesis
      unfolding len using Suc by simp
  qed
qed

subsection \<open>process_case and the loops\<close>

lemma process_case_cases:
  obtains (thrown) es message where
      "answer_case w cfg l i tc st = (es, Inl message)"
      "process_case w cfg l i tc (st, qa) = (map Within es, qa, Inl message)"
  | (written) es e st' where
      "answer_case w cfg l i tc st = (es, Inr (e, st'))"
      "process_case w cfg l i tc (st, qa)
         = (map Within es @ [WriteResults l (qa @ [e]), Within (Delay 1500)], qa @ [e], Inr st')"
proof (cases "answer_case w cfg l i tc st")
  case (Pair es r)
  show ?thesis
  proof (cases r)
    case (Inl message)
    with Pair show ?thesis using thrown by (simp add: process_case_def)
  next
    case (Inr x)
    obtain e st' where "x = (e, st')" by (cases x)
    with Pair Inr show ?thesis using written by (simp add: process_case_def)
  qed
qed

lemma answer_case_InlD: "answer_case w cfg l i tc st = (es, Inl message) \<Longrightarrow> message = cancelled_message"
  using answer_case_throws_only [of w cfg l i tc st] by (simp add: throws_only_def)

lemma answer_case_quiet:
  "answer_case w cfg l i tc st = (es, r) \<Longrightarrow> list_all (\<lambda>ev. \<not> terminal ev) (events_of (map Within es))"
  using answer_case_no_terminal [of w cfg l i tc st] by (simp add: events_of_Within)

lemma prefixes_Cons:
  "map (\<lambda>k. acc @ take (Suc k) (e # es)) [0..<Suc (length es)]
   = (acc @ [e]) # map (\<lambda>k. (acc @ [e]) @ take (Suc k) es) [0..<length es]"
  by (simp add: map_upt_Suc del: upt_Suc)

lemma run_cases_writes:
  "run_cases w cfg l i tcs (st, acc) = (as, qa, r) \<Longrightarrow>
   \<exists>es. qa = acc @ es
     \<and> writes_of l as = map (\<lambda>k. acc @ take (Suc k) es) [0..<length es]
     \<and> (\<forall>l'. l' \<noteq> l \<longrightarrow> writes_of l' as = [])
     \<and> length es \<le> length tcs
     \<and> (\<forall>j<length es. reports (es ! j) (tcs ! j))
     \<and> (\<forall>m. r = Inl m \<longrightarrow> m = cancelled_message)
     \<and> list_all (\<lambda>ev. \<not> terminal ev) (events_of as)"
proof (induction tcs arbitrary: i st acc as qa r)
  case Nil
  then show ?case by (intro exI [of _ "[]"]) auto
next
  case (Cons tc rest)
  show ?case
  proof (cases rule: process_case_cases [of w cfg l i tc st acc])
    case (thrown es message)
    with Cons.prems have "as = map Within es" "qa = acc" "r = Inl message" by simp_all
    with thrown show ?thesis
      by (intro exI [of _ "[]"]) (auto dest: answer_case_InlD answer_case_quiet)
  next
    case (written es e st')
    obtain bs qa' r' where rc: "run_cases w cfg l (Suc i) rest (st', acc @ [e]) = (bs, qa', r')"
      by (cases "run_cases w cfg l (Suc i) rest (st', acc @ [e])") auto
    with Cons.prems written have
      as: "as = (map Within es @ [WriteResults l (acc @ [e]), Within (Delay 1500)]) @ bs"
      and qa: "qa = qa'" and r: "r = r'"
      by simp_all
    from Cons.IH [OF rc] obtain es' where
      ih: "qa' = (acc @ [e]) @ es'"
        "writes_of l bs = map (\<lambda>k. (acc @ [e]) @ take (Suc k) es') [0..<length es']"
        "\<forall>l'. l' \<noteq> l \<longrightarrow> writes_of l' bs = []"
        "length es' \<le> length rest"
        "\<forall>j<length es'. reports (es' ! j) (rest ! j)"
        "\<forall>m. r' = Inl m \<longrightarrow> m = cancelled_message"
        "list_all (\<lambda>ev. \<not> terminal ev) (events_of bs)"
      by blast
    have rep: "reports e tc" using written(1) by (rule answer_case_reports)
    have "writes_of l as = (acc @ [e]) # writes_of l bs"
      unfolding as by simp
    also have "\<dots> = (acc @ [e]) # map (\<lambda>k. (acc @ [e]) @ take (Suc k) es') [0..<length es']"
      by (simp only: ih(2))
    also have "\<dots> = map (\<lambda>k. acc @ take (Suc k) (e # es')) [0..<Suc (length es')]"
      by (rule prefixes_Cons [symmetric])
    finally have w: "writes_of l as = map (\<lambda>k. acc @ take (Suc k) (e # es')) [0..<length (e # es')]"
      by (simp del: upt_Suc)
    have rp: "\<forall>j<length (e # es'). reports ((e # es') ! j) ((tc # rest) ! j)"
      using rep ih(5) by (auto simp: nth_Cons split: nat.splits)
    have q: "list_all (\<lambda>ev. \<not> terminal ev) (events_of as)"
      unfolding as using ih(7) answer_case_quiet [OF written(1)] by simp
    show ?thesis
      using w rp q ih(1,3,4,6) qa r as
      by (intro exI [of _ "e # es'"]) auto
  qed
qed

lemma run_loop_writes:
  assumes "run_loop w cfg l st = (as, qa, r)"
  shows "writes_of l as = map (\<lambda>k. take (Suc k) qa) [0..<length qa]"
    and "\<And>l'. l' \<noteq> l \<Longrightarrow> writes_of l' as = []"
    and "length qa \<le> length (testCases cfg)"
    and "\<And>j. j < length qa \<Longrightarrow> reports (qa ! j) (testCases cfg ! j)"
    and "\<And>m. r = Inl m \<Longrightarrow> m = cancelled_message"
    and "list_all (\<lambda>ev. \<not> terminal ev) (events_of as)"
proof -
  have "writes_of l as = map (\<lambda>k. take (Suc k) qa) [0..<length qa]
     \<and> (\<forall>l'. l' \<noteq> l \<longrightarrow> writes_of l' as = [])
     \<and> length qa \<le> length (testCases cfg)
     \<and> (\<forall>j<length qa. reports (qa ! j) (testCases cfg ! j))
     \<and> (\<forall>m. r = Inl m \<longrightarrow> m = cancelled_message)
     \<and> list_all (\<lambda>ev. \<not> terminal ev) (events_of as)"
  proof (cases "aborted w (AtLoopStart l)")
    case True
    with assms show ?thesis by (auto simp: run_loop_def)
  next
    case False
    obtain bs where rc: "run_cases w cfg l 0 (testCases cfg) (st, []) = (bs, qa, r)"
      and as: "as = [MkdirLoop l, EnsureLogFileExists l] @ bs"
      using assms False by (auto simp: run_loop_def split: prod.splits)
    from run_cases_writes [OF rc] show ?thesis
      unfolding as by auto
  qed
  then show "writes_of l as = map (\<lambda>k. take (Suc k) qa) [0..<length qa]"
    and "\<And>l'. l' \<noteq> l \<Longrightarrow> writes_of l' as = []"
    and "length qa \<le> length (testCases cfg)"
    and "\<And>j. j < length qa \<Longrightarrow> reports (qa ! j) (testCases cfg ! j)"
    and "\<And>m. r = Inl m \<Longrightarrow> m = cancelled_message"
    and "list_all (\<lambda>ev. \<not> terminal ev) (events_of as)"
    by blast+
qed

lemma run_loops_unfold:
  "run_loops w cfg a st =
     (if a \<le> loopCount cfg then
        (case run_loop w cfg a st of
           (as, qa, Inl message) \<Rightarrow> (as, Inl message)
         | (as, qa, Inr st') \<Rightarrow>
             (case run_loops w cfg (Suc a) st' of (bs, r) \<Rightarrow> (as @ bs, r)))
      else ([], Inr st))"
  by (rule run_loops.simps)




lemma POST_writes: "writes_of l (POST w cfg) = writes_of l (fst (runTask w cfg))"
  by (cases "runTask w cfg") (auto simp: POST_def split: sum.splits)



subsection \<open>Cancellation between two test cases\<close>

lemma run_cases_until:
  "\<forall>j<k. \<forall>p. \<not> aborted w (InCase l (i + j) p) \<Longrightarrow> aborted w (InCase l (i + k) AtUpdateAnswer) \<Longrightarrow>
   k < length tcs \<Longrightarrow>
   \<exists>as qa. run_cases w cfg l i tcs (st, acc) = (as, qa, Inl cancelled_message)
     \<and> length qa = length acc + k"
proof (induction k arbitrary: i tcs st acc)
  case 0
  then obtain tc rest where tcs: "tcs = tc # rest" by (cases tcs) auto
  from 0 have "answer_case w cfg l i tc st = ([], Inl cancelled_message)"
    by (simp add: answer_case_first_abort)
  then show ?case by (simp add: tcs process_case_def)
next
  case (Suc k)
  then obtain tc rest where tcs: "tcs = tc # rest" by (cases tcs) auto
  from Suc.prems(1) have "\<forall>p. \<not> aborted w (InCase l i p)"
    by (metis add.right_neutral zero_less_Suc)
  then have "completes (answer_case w cfg l i tc st)"
    by (rule answer_case_completes)
  from process_case_continues [OF this, of acc] obtain es e st' where
    pc: "process_case w cfg l i tc (st, acc)
           = (map Within es @ [WriteResults l (acc @ [e]), Within (Delay 1500)], acc @ [e], Inr st')"
    by blast
  have "\<forall>j<k. \<forall>p. \<not> aborted w (InCase l (Suc i + j) p)"
    using Suc.prems(1) by (metis add_Suc_shift Suc_less_eq)
  moreover have "aborted w (InCase l (Suc i + k) AtUpdateAnswer)"
    using Suc.prems(2) by simp
  moreover have "k < length rest" using Suc.prems(3) tcs by simp
  ultimately obtain bs qa where
    "run_cases w cfg l (Suc i) rest (st', acc @ [e]) = (bs, qa, Inl cancelled_message)"
    "length qa = length (acc @ [e]) + k"
    using Suc.IH [where i = "Suc i" and tcs = rest and st = st' and acc = "acc @ [e]"] by blast
  then show ?case
    by (simp add: tcs pc)
qed

lemma run_cases_all:
  "\<forall>j<length tcs. \<forall>p. \<not> aborted w (InCase l (i + j) p) \<Longrightarrow>
   \<exists>as qa st'. run_cases w cfg l i tcs (st, acc) = (as, qa, Inr st')"
proof (induction tcs arbitrary: i st acc)
  case Nil
  show ?case by simp
next
  case (Cons tc rest)
  from Cons.prems have "\<forall>p. \<not> aborted w (InCase l i p)"
    by (metis add.right_neutral length_greater_0_conv list.distinct(1))
  then have "completes (answer_case w cfg l i tc st)"
    by (rule answer_case_completes)
  from process_case_continues [OF this, of acc] obtain es e st' where
    pc: "process_case w cfg l i tc (st, acc)
           = (map Within es @ [WriteResults l (acc @ [e]), Within (Delay 1500)], acc @ [e], Inr st')"
    by blast
  have "\<forall>j<length rest. \<forall>p. \<not> aborted w (InCase l (Suc i + j) p)"
    using Cons.prems by (metis add_Suc_shift Suc_less_eq length_Cons)
  from Cons.IH [where st = st' and acc = "acc @ [e]", OF this] obtain bs qa st'' where
    "run_cases w cfg l (Suc i) rest (st', acc @ [e]) = (bs, qa, Inr st'')"
    by blast
  then show ?case by (simp add: pc)
qed

lemma run_loop_completes:
  "\<not> aborted w (AtLoopStart l) \<Longrightarrow> \<forall>i p. \<not> aborted w (InCase l i p) \<Longrightarrow>
   \<exists>as qa st'. run_loop w cfg l st = (as, qa, Inr st')"
  using run_cases_all [where tcs = "testCases cfg" and w = w and l = l and i = 0 and cfg = cfg and st = st and acc = "[]"]
  by (auto simp: run_loop_def)

lemma run_loops_until:
  assumes nb: "\<forall>p. passed_before loop k p \<longrightarrow> \<not> aborted w p"
    and ab: "aborted w (InCase loop k AtUpdateAnswer)"
    and k: "k < length (testCases cfg)"
    and le: "loop \<le> loopCount cfg"
  shows "a \<le> loop \<Longrightarrow>
     \<exists>as entries. run_loops w cfg a st = (as, Inl cancelled_message)
       \<and> length entries = k
       \<and> (\<forall>j<k. reports (entries ! j) (testCases cfg ! j))
       \<and> writes_of loop as = map (\<lambda>j. take (Suc j) entries) [0..<k]
       \<and> list_all (\<lambda>ev. \<not> terminal ev) (events_of as)"
proof (induction "loop - a" arbitrary: a st)
  case 0
  then have a: "a = loop" by simp
  have start: "\<not> aborted w (AtLoopStart loop)" using nb by simp
  have "\<forall>j<k. \<forall>p. \<not> aborted w (InCase loop (0 + j) p)" using nb by simp
  from run_cases_until [where cfg = cfg and st = st and acc = "[]" and tcs = "testCases cfg", OF this] ab k obtain bs qa where
    rc: "run_cases w cfg loop 0 (testCases cfg) (st, []) = (bs, qa, Inl cancelled_message)"
    and len: "length qa = k"
    by auto
  have rl: "run_loop w cfg loop st = ([MkdirLoop loop, EnsureLogFileExists loop] @ bs, qa, Inl cancelled_message)"
    using start rc by (simp add: run_loop_def)
  note rw = run_loop_writes [OF rl]
  have "run_loops w cfg a st = ([MkdirLoop loop, EnsureLogFileExists loop] @ bs, Inl cancelled_message)"
    using le rl a by (simp add: run_loops_unfold [of w cfg loop st])
  then show ?case
    using rw(1,4,6) len by (intro exI [of _ "[MkdirLoop loop, EnsureLogFileExists loop] @ bs"] exI [of _ qa]) auto
next
  case (Suc n)
  then have lt: "a < loop" by simp
  have "\<not> aborted w (AtLoopStart a)" using nb lt by simp
  moreover have "\<forall>i p. \<not> aborted w (InCase a i p)" using nb lt by simp
  ultimately obtain as1 qa st' where rl: "run_loop w cfg a st = (as1, qa, Inr st')"
    using run_loop_completes [where w = w and l = a and cfg = cfg and st = st] by blast
  note rw = run_loop_writes [OF rl]
  have "n = loop - Suc a" "Suc a \<le> loop" using Suc.hyps(2) lt by simp_all
  from Suc.hyps(1) [where st = st', OF this] obtain bs entries where
    ih: "run_loops w cfg (Suc a) st' = (bs, Inl cancelled_message)"
      "length entries = k" "\<forall>j<k. reports (entries ! j) (testCases cfg ! j)"
      "writes_of loop bs = map (\<lambda>j. take (Suc j) entries) [0..<k]"
      "list_all (\<lambda>ev. \<not> terminal ev) (events_of bs)"
    by blast
  have "run_loops w cfg a st = (as1 @ bs, Inl cancelled_message)"
    using lt le rl ih(1) by (simp add: run_loops_unfold [of w cfg a st])
  moreover have "writes_of loop (as1 @ bs) = map (\<lambda>j. take (Suc j) entries) [0..<k]"
    using rw(2) [of loop] lt ih(4) by simp
  moreover have "list_all (\<lambda>ev. \<not> terminal ev) (events_of (as1 @ bs))"
    using rw(6) ih(5) by simp
  ultimately show ?case
    using ih(2,3) by (intro exI [of _ "as1 @ bs"] exI [of _ entries]) auto
qed

text \<open>
  C1, as the claim states it, fails.  In the run \<open>cancelled_after_two\<close> of five test cases
  the cancellation is seen at the start of the third; the file of the loop then holds the
  entries of the first two test cases, as the claim says, but the frame that ends the
  stream is an \<open>error\<close> frame (with the cancellation message): the \<open>catch\<close> of POST sends
  \<open>{ type: 'error', \<dots> }\<close> in both of its branches, and the stream has no other kind
  of frame for cancellation.
\<close>

theorem cancellation_is_sent_as_error_frame:
  "aborted cancelled_after_two (InCase 1 2 AtUpdateAnswer)
   \<and> \<not> aborted cancelled_after_two (InCase 1 1 AtStateScore)
   \<and> length (testCases five_cases) = 5
   \<and> map e_id (the (results_file 1 (POST cancelled_after_two five_cases))) = [1, 2]
   \<and> last (events_of (POST cancelled_after_two five_cases)) = EvError cancelled_frame_message
   \<and> terminal (last (events_of (POST cancelled_after_two five_cases)))"
  by code_simp

text \<open>
  C1, amended.  When the cancellation is first seen at the start of the test case at
  position \<open>k\<close> of a loop (after \<open>k\<close> test cases of that loop, and all loops before it,
  have run without any sign of it), the \<open>results.json\<close> of the loop holds exactly the \<open>k\<close>
  entries of the test cases completed before, in order (it does not exist if \<open>k = 0\<close>), and
  the stream ends with one \<open>error\<close> frame whose message is the cancellation message; no
  \<open>done\<close> frame and no other \<open>error\<close> frame is sent.
\<close>

theorem cancellation_between_cases:
  assumes "\<forall>p. passed_before loop k p \<longrightarrow> \<not> aborted w p"
    and "aborted w (InCase loop k AtUpdateAnswer)"
    and "k < length (testCases config)"
    and "1 \<le> loop" and "loop \<le> loopCount config"
  shows "\<exists>entries frames.
      length entries = k
      \<and> (\<forall>j<k. reports (entries ! j) (testCases config ! j))
      \<and> writes_of loop (POST w config) = map (\<lambda>j. take (Suc j) entries) [0..<k]
      \<and> results_file loop (POST w config) = (if k = 0 then None else Some entries)
      \<and> events_of (POST w config) = frames @ [EvError cancelled_frame_message]
      \<and> list_all (\<lambda>ev. \<not> terminal ev) frames"
proof -
  from run_loops_until [where a = 1 and st = "\<lparr> currentTask = 0, totalTokenUsage = 0 \<rparr>", OF assms(1,2,3,5)] assms(4)
  obtain as entries where
    rl: "run_loops w config 1 \<lparr> currentTask = 0, totalTokenUsage = 0 \<rparr> = (as, Inl cancelled_message)"
    and en: "length entries = k" "\<forall>j<k. reports (entries ! j) (testCases config ! j)"
    and wr: "writes_of loop as = map (\<lambda>j. take (Suc j) entries) [0..<k]"
    and qu: "list_all (\<lambda>ev. \<not> terminal ev) (events_of as)"
    by auto
  have "\<not> aborted w AtLoading" using assms(1) by simp
  then have rt: "runTask w config
      = (Within (Emit (EvLog (LoadingProject (projectName config)))) # as, Inl cancelled_message)"
    using rl by (simp add: runTask_def onProgress_def perform_def)
  let ?frames = "[EvLog ResultDirCreated, EvLog (LoadingProject (projectName config))] @ events_of as"
  have ev: "events_of (POST w config) = ?frames @ [EvError cancelled_frame_message]"
    by (simp add: POST_def rt)
  have w: "writes_of loop (POST w config) = map (\<lambda>j. take (Suc j) entries) [0..<length entries]"
    using wr en(1) by (simp add: POST_writes rt)
  have rf: "results_file loop (POST w config) = (if k = 0 then None else Some entries)"
  proof (cases k)
    case 0
    with w en(1) show ?thesis by (simp add: results_file_def)
  next
    case (Suc k')
    have "results_file loop (take (length (POST w config)) (POST w config)) =
        (case length (writes_of loop (take (length (POST w config)) (POST w config))) of
           0 \<Rightarrow> None | Suc j \<Rightarrow> Some (take (Suc j) entries))"
      by (rule results_file_prefix [OF w])
    then show ?thesis using w en(1) Suc by simp
  qed
  show ?thesis
    using en w rf ev qu
    by (intro exI [of _ entries] exI [of _ ?frames]) auto
qed

theorem cancellation_between_cases_witness:
  "passed_before 1 2 (InCase 1 1 AtStateScore)
   \<and> \<not> aborted cancelled_after_two (InCase 1 1 AtStateScore)
   \<and> aborted cancelled_after_two (InCase 1 2 AtUpdateAnswer)
   \<and> 2 < length (testCases five_cases)
   \<and> 1 \<le> loopCount five_cases
   \<and> (\<exists>entries frames.
        length entries = 2
        \<and> results_file 1 (POST cancelled_after_two five_cases) = Some entries
        \<and> events_of (POST cancelled_after_two five_cases)
            = frames @ [EvError cancelled_frame_message]
        \<and> list_all (\<lambda>ev. \<not> terminal ev) frames)"
proof -
  have h1: "\<forall>p. passed_before 1 2 p \<longrightarrow> \<not> aborted cancelled_after_two p"
    by (simp add: cancelled_after_two_def calm_def)
  have h2: "aborted cancelled_after_two (InCase 1 2 AtUpdateAnswer)"
    by (simp add: cancelled_after_two_def calm_def)
  have h3: "2 < length (testCases five_cases)"
    by (simp add: five_cases_def)
  have h4: "(1::nat) \<le> 1"
    by simp
  have h5: "1 \<le> loopCount five_cases"
    by (simp add: five_cases_def)
  have h6: "passed_before 1 2 (InCase 1 1 AtStateScore)"
    by simp
  from cancellation_between_cases [OF h1 h2 h3 h4 h5]
  have "\<exists>entries frames.
        length entries = 2
        \<and> results_file 1 (POST cancelled_after_two five_cases) = Some entries
        \<and> events_of (POST cancelled_after_two five_cases)
            = frames @ [EvError cancelled_frame_message]
        \<and> list_all (\<lambda>ev. \<not> terminal ev) frames"
    by auto
  with h1 h2 h3 h5 h6 show ?thesis by blast
qed

end
